theory Spec2Isabelle
  imports Main "HOL-Library.Word" "HOL-Library.Sublist"
begin

unbundle bit_operations_syntax

section \<open>Common definitions\<close>

text \<open>
  Go's \<^verbatim>\<open>uint32\<close> is a 32-bit word: addition and subtraction wrap, \<^verbatim>\<open>x << s\<close> is
  \<open>push_bit (unat s) x\<close> and \<^verbatim>\<open>x >> s\<close> is \<open>drop_bit (unat s) x\<close> (both are 0 for a
  shift count of 32 or more, as in Go). A slice is a list; reading or writing a slice
  outside its length panics, which the model returns as an error value. Errors created
  with \<^verbatim>\<open>errors.New\<close> are the remaining constructors.
\<close>

type_synonym u32 = "32 word"

datatype error =
    IndexOutOfRange
  | SliceBoundsOutOfRange
  | DimensionsNotPositive
  | RegionEmpty
  | RegionMustFit
  | RowLengthsDoNotMatch
  | IllegalCharacter
  | SliceIsNil
  | PositionNegative
  | LengthNegative
  | SrcTooShort
  | DestTooShort

definition bind_err :: "error + 'a \<Rightarrow> ('a \<Rightarrow> error + 'b) \<Rightarrow> error + 'b" where
  "bind_err m f = (case m of Inl e \<Rightarrow> Inl e | Inr v \<Rightarrow> f v)"

lemma bind_err_cong [fundef_cong]:
  "m = m' \<Longrightarrow> (\<And>v. m' = Inr v \<Longrightarrow> f v = f' v) \<Longrightarrow> bind_err m f = bind_err m' f'"
  by (cases m') (simp_all add: bind_err_def)

definition index :: "'a list \<Rightarrow> nat \<Rightarrow> error + 'a" where
  "index xs i = (if i < length xs then Inr (xs ! i) else Inl IndexOutOfRange)"

definition store :: "'a list \<Rightarrow> nat \<Rightarrow> 'a \<Rightarrow> error + 'a list" where
  "store xs i v = (if i < length xs then Inr (xs[i := v]) else Inl IndexOutOfRange)"

text \<open>\<^verbatim>\<open>bits.TrailingZeros32\<close> of the Go standard library: the number of trailing zero
  bits, 32 for 0.\<close>

fun tzcount :: "nat \<Rightarrow> u32 \<Rightarrow> nat" where
  "tzcount 0 x = 0"
| "tzcount (Suc n) x = (if bit x 0 then 0 else Suc (tzcount n (drop_bit 1 x)))"

definition TrailingZeros32 :: "u32 \<Rightarrow> nat" where
  "TrailingZeros32 x = tzcount 32 x"

text \<open>Facts about \<^verbatim>\<open>uint32\<close> counters, for the termination of the loops.\<close>

lemma unat_pred_less: "(w :: u32) \<noteq> 0 \<Longrightarrow> unat (w - 1) < unat w"
  by (simp add: unat_minus_one unat_gt_0)


lemma measure_up: "(x :: u32) < b \<Longrightarrow> unat b - unat (x + 1) < unat b - unat x"
  by unat_arith

section \<open>BitArray\<close>

text \<open>
  The fields \<^verbatim>\<open>bits\<close> and \<^verbatim>\<open>size\<close> are \<open>abits\<close> and \<open>asize\<close>; the methods \<^verbatim>\<open>Get\<close>,
  \<^verbatim>\<open>Set\<close>, \<^verbatim>\<open>Clear\<close> and \<^verbatim>\<open>Equals\<close>, whose names \<^verbatim>\<open>BitMatrix\<close> has too, are \<open>AGet\<close>,
  \<open>ASet\<close>, \<open>AClear\<close> and \<open>AEquals\<close>.
\<close>

record BitArray =
  abits :: "u32 list"
  asize :: u32

definition NewEmptyBitArray :: BitArray where
  "NewEmptyBitArray = \<lparr>abits = replicate 1 0, asize = 0\<rparr>"

definition NewBitArray :: "u32 \<Rightarrow> BitArray" where
  "NewBitArray sz = \<lparr>abits = replicate (unat ((sz + 31) div 32)) 0, asize = sz\<rparr>"

text \<open>\<^verbatim>\<open>EnsureCapacity\<close> allocates \<^verbatim>\<open>size\<close> words (not \<^verbatim>\<open>(size + 31) / 32\<close>) and copies
  the old words over; the copy panics when the old buffer is the longer one.\<close>

definition EnsureCapacity :: "BitArray \<Rightarrow> u32 \<Rightarrow> error + BitArray" where
  "EnsureCapacity ba sz =
     (if sz > of_nat (length (abits ba) * 32) then
        (if length (abits ba) \<le> unat sz
         then Inr (ba\<lparr>abits := abits ba @ replicate (unat sz - length (abits ba)) 0\<rparr>)
         else Inl IndexOutOfRange)
      else Inr ba)"

definition AGet :: "BitArray \<Rightarrow> u32 \<Rightarrow> error + bool" where
  "AGet ba i =
     bind_err (index (abits ba) (unat (i div 32)))
       (\<lambda>w. Inr ((w AND push_bit (unat (i AND 0x1F)) 1) \<noteq> 0))"

definition ASet :: "BitArray \<Rightarrow> u32 \<Rightarrow> error + BitArray" where
  "ASet ba i =
     bind_err (index (abits ba) (unat (i div 32)))
       (\<lambda>w. Inr (ba\<lparr>abits := (abits ba)[unat (i div 32) := w OR push_bit (unat (i AND 0x1F)) 1]\<rparr>))"

definition AppendBit :: "BitArray \<Rightarrow> bool \<Rightarrow> error + BitArray" where
  "AppendBit ba b =
     bind_err (EnsureCapacity ba (asize ba + 1))
       (\<lambda>ba1. bind_err (if b then ASet ba1 (asize ba1) else Inr ba1)
          (\<lambda>ba2. Inr (ba2\<lparr>asize := asize ba2 + 1\<rparr>)))"

text \<open>
  The scanning loop of \<^verbatim>\<open>GetNextUnset\<close>: \<open>Inr None\<close> is the early \<^verbatim>\<open>return ba.size\<close>,
  \<open>Inr (Some (bitsOffset, currentBits))\<close> is the \<^verbatim>\<open>break\<close>. The counter is a \<^verbatim>\<open>uint32\<close>
  compared with \<^verbatim>\<open>uint32(len(ba.bits))\<close>; the loop ends because the counter reaches that
  value after at most \<open>2 ^ 32\<close> steps, or an index is out of range before.
\<close>

function GetNextUnset_loop :: "u32 list \<Rightarrow> u32 \<Rightarrow> u32 \<Rightarrow> error + (u32 \<times> u32) option" where
  "GetNextUnset_loop bs bitsOffset currentBits =
     (if currentBits \<noteq> 0 then Inr (Some (bitsOffset, currentBits))
      else if bitsOffset + 1 = of_nat (length bs) then Inr None
      else if unat (bitsOffset + 1) < length bs
        then GetNextUnset_loop bs (bitsOffset + 1) (NOT (bs ! unat (bitsOffset + 1)))
        else Inl IndexOutOfRange)"
  by pat_completeness auto
termination
proof (relation "measure (\<lambda>(bs, off, cur). unat ((of_nat (length bs) :: u32) - off - 1))")
  show "wf (measure (\<lambda>(bs, off, cur). unat ((of_nat (length bs) :: u32) - off - 1)))"
    by simp
next
  fix bs :: "u32 list" and bitsOffset currentBits :: u32
  assume ne: "bitsOffset + 1 \<noteq> of_nat (length bs)"
  define d where "d = (of_nat (length bs) :: u32) - bitsOffset - 1"
  from ne have "d \<noteq> 0" unfolding d_def by (simp add: algebra_simps)
  then have "unat (d - 1) < unat d"
    by (rule unat_pred_less)
  moreover have "of_nat (length bs) - (bitsOffset + 1) - 1 = d - 1"
    unfolding d_def by simp
  ultimately show "((bs, bitsOffset + 1, NOT (bs ! unat (bitsOffset + 1))),
                    (bs, bitsOffset, currentBits))
         \<in> measure (\<lambda>(bs, off, cur). unat ((of_nat (length bs) :: u32) - off - 1))"
    unfolding d_def by simp
qed

declare GetNextUnset_loop.simps [simp del]

definition GetNextUnset :: "BitArray \<Rightarrow> u32 \<Rightarrow> error + u32" where
  "GetNextUnset ba from =
     (if from \<ge> asize ba then Inr (asize ba)
      else
        bind_err (index (abits ba) (unat (from div 32)))
          (\<lambda>w. let currentBits = NOT w AND NOT (push_bit (unat (from AND 0x3F)) 1 - 1) in
             bind_err (GetNextUnset_loop (abits ba) (from div 32) currentBits)
               (\<lambda>r. case r of
                      None \<Rightarrow> Inr (asize ba)
                    | Some (bitsOffset, cur) \<Rightarrow>
                        (let result = bitsOffset * 32 + of_nat (TrailingZeros32 cur)
                         in if result > asize ba then Inr (asize ba) else Inr result))))"

text \<open>\<^verbatim>\<open>Equals\<close>: the loop runs over the receiver's words and reads the same
  index of the other buffer, whatever its length.\<close>

function Equals_loop :: "u32 list \<Rightarrow> u32 list \<Rightarrow> nat \<Rightarrow> error + bool" where
  "Equals_loop bs obs i =
     (if i < length bs then
        bind_err (index obs i)
          (\<lambda>ow. if bs ! i \<noteq> ow then Inr False else Equals_loop bs obs (i + 1))
      else Inr True)"
  by pat_completeness auto
termination
  by (relation "measure (\<lambda>(bs, obs, i). length bs - i)") auto

declare Equals_loop.simps [simp del]

definition AEquals :: "BitArray \<Rightarrow> BitArray \<Rightarrow> error + bool" where
  "AEquals ba other =
     (if asize ba \<noteq> asize other then Inr False
      else Equals_loop (abits ba) (abits other) 0)"

definition SetBulk :: "BitArray \<Rightarrow> u32 \<Rightarrow> u32 \<Rightarrow> error + BitArray" where
  "SetBulk ba i newBits =
     bind_err (store (abits ba) (unat (i div 32)) newBits) (\<lambda>bs. Inr (ba\<lparr>abits := bs\<rparr>))"

definition AClear :: "BitArray \<Rightarrow> BitArray" where
  "AClear ba = ba\<lparr>abits := replicate (length (abits ba)) 0\<rparr>"

subsection \<open>Reverse\<close>

text \<open>The five swap steps that reverse the bits of one word.\<close>

definition reverse_word :: "u32 \<Rightarrow> u32" where
  "reverse_word x0 =
     (let x1 = (drop_bit 1 x0 AND 0x55555555) OR push_bit 1 (x0 AND 0x55555555);
          x2 = (drop_bit 2 x1 AND 0x33333333) OR push_bit 2 (x1 AND 0x33333333);
          x3 = (drop_bit 4 x2 AND 0x0F0F0F0F) OR push_bit 4 (x2 AND 0x0F0F0F0F);
          x4 = (drop_bit 8 x3 AND 0x00FF00FF) OR push_bit 8 (x3 AND 0x00FF00FF)
      in (drop_bit 16 x4 AND 0x0000FFFF) OR push_bit 16 (x4 AND 0x0000FFFF))"

text \<open>First loop: word \<^verbatim>\<open>i\<close> of the old buffer, reversed, goes to \<^verbatim>\<open>newBits[len-i]\<close>.\<close>

function Reverse_words :: "u32 list \<Rightarrow> u32 list \<Rightarrow> u32 \<Rightarrow> u32 \<Rightarrow> u32 \<Rightarrow> error + u32 list" where
  "Reverse_words bs newBits len oldBitsLen i =
     (if i < oldBitsLen then
        bind_err (index bs (unat i))
          (\<lambda>x. bind_err (store newBits (unat (len - i)) (reverse_word x))
             (\<lambda>nb. Reverse_words bs nb len oldBitsLen (i + 1)))
      else Inr newBits)"
  by pat_completeness auto
termination
  by (relation "measure (\<lambda>(bs, nb, len, n, i). unat n - unat i)") (auto simp: measure_up)

declare Reverse_words.simps [simp del]

text \<open>Second loop: the shift by the padding. \<^verbatim>\<open>currentInt\<close> accumulates with \<^verbatim>\<open>|=\<close> and is
  never reset inside the loop.\<close>

function Reverse_shift :: "u32 list \<Rightarrow> u32 \<Rightarrow> u32 \<Rightarrow> u32 \<Rightarrow> u32 \<Rightarrow> error + (u32 list \<times> u32)" where
  "Reverse_shift newBits currentInt leftOffset oldBitsLen i =
     (if i < oldBitsLen then
        bind_err (index newBits (unat i))
          (\<lambda>nextInt.
             let cur = currentInt OR push_bit (unat (32 - leftOffset)) nextInt in
             bind_err (store newBits (unat (i - 1)) cur)
               (\<lambda>nb. Reverse_shift nb cur leftOffset oldBitsLen (i + 1)))
      else Inr (newBits, currentInt))"
  by pat_completeness auto
termination
  by (relation "measure (\<lambda>(nb, cur, off, n, i). unat n - unat i)") (auto simp: measure_up)

declare Reverse_shift.simps [simp del]

definition Reverse :: "BitArray \<Rightarrow> error + BitArray" where
  "Reverse ba =
     (let len = (asize ba - 1) div 32;
          oldBitsLen = len + 1
      in bind_err (Reverse_words (abits ba) (replicate (length (abits ba)) 0) len oldBitsLen 0)
           (\<lambda>newBits.
              if asize ba \<noteq> oldBitsLen * 32 then
                (let leftOffset = oldBitsLen * 32 - asize ba in
                 bind_err (index newBits 0)
                   (\<lambda>w0. bind_err (Reverse_shift newBits (drop_bit (unat leftOffset) w0)
                                     leftOffset oldBitsLen 1)
                      (\<lambda>(nb, currentInt).
                         bind_err (store nb (unat (oldBitsLen - 1)) currentInt)
                           (\<lambda>nb'. Inr (ba\<lparr>abits := nb'\<rparr>)))))
              else Inr (ba\<lparr>abits := newBits\<rparr>)))"

subsection \<open>The reference reversal of the test suite\<close>

text \<open>\<^verbatim>\<open>bitSet\<close> and \<^verbatim>\<open>reverseOriginal\<close> of \<^verbatim>\<open>TestBitArray_ReverseAlgorithmTest\<close>: bit \<^verbatim>\<open>i\<close>
  of the result is bit \<^verbatim>\<open>size-i-1\<close> of the input.\<close>

definition bitSet :: "u32 list \<Rightarrow> u32 \<Rightarrow> error + bool" where
  "bitSet bs i =
     bind_err (index bs (unat (i div 32)))
       (\<lambda>w. Inr ((w AND push_bit (unat (i AND 0x1F)) 1) \<noteq> 0))"

function reverseOriginal_loop :: "u32 list \<Rightarrow> u32 list \<Rightarrow> u32 \<Rightarrow> u32 \<Rightarrow> error + u32 list" where
  "reverseOriginal_loop oldBits newBits sz i =
     (if i < sz then
        bind_err (bitSet oldBits (sz - i - 1))
          (\<lambda>b. if b then
                 bind_err (index newBits (unat (i div 32)))
                   (\<lambda>w. reverseOriginal_loop oldBits
                          (newBits[unat (i div 32) := w OR push_bit (unat (i AND 0x1F)) 1])
                          sz (i + 1))
               else reverseOriginal_loop oldBits newBits sz (i + 1))
      else Inr newBits)"
  by pat_completeness auto
termination
  by (relation "measure (\<lambda>(ob, nb, n, i). unat n - unat i)") (auto simp: measure_up)

declare reverseOriginal_loop.simps [simp del]

definition reverseOriginal :: "u32 list \<Rightarrow> u32 \<Rightarrow> error + u32 list" where
  "reverseOriginal oldBits sz =
     reverseOriginal_loop oldBits (replicate (length oldBits) 0) sz 0"

section \<open>BitMatrix\<close>

record BitMatrix =
  width :: u32
  height :: u32
  rowSize :: u32
  bits :: "u32 list list"

definition NewBitMatrix :: "u32 \<Rightarrow> u32 \<Rightarrow> error + BitMatrix" where
  "NewBitMatrix w h =
     (if w = 0 \<or> h = 0 then Inl DimensionsNotPositive
      else Inr \<lparr>width = w, height = h, rowSize = (w + 31) div 32,
                bits = replicate (unat h) (replicate (unat ((w + 31) div 32)) 0)\<rparr>)"

text \<open>\<^verbatim>\<open>bm.bits[y][x]\<close>, each index checked.\<close>

definition word_at :: "u32 list list \<Rightarrow> u32 \<Rightarrow> u32 \<Rightarrow> error + u32" where
  "word_at bs y x = bind_err (index bs (unat y)) (\<lambda>row. index row (unat x))"

definition set_word_at :: "u32 list list \<Rightarrow> u32 \<Rightarrow> u32 \<Rightarrow> u32 \<Rightarrow> error + u32 list list" where
  "set_word_at bs y x v =
     bind_err (index bs (unat y))
       (\<lambda>row. bind_err (store row (unat x) v) (\<lambda>row'. Inr (bs[unat y := row'])))"

definition Get :: "BitMatrix \<Rightarrow> u32 \<Rightarrow> u32 \<Rightarrow> error + bool" where
  "Get bm x y =
     bind_err (word_at (bits bm) y (x div 32))
       (\<lambda>w. Inr ((drop_bit (unat (x AND 0x1F)) w AND 1) \<noteq> 0))"

definition Set :: "BitMatrix \<Rightarrow> u32 \<Rightarrow> u32 \<Rightarrow> error + BitMatrix" where
  "Set bm x y =
     bind_err (word_at (bits bm) y (x div 32))
       (\<lambda>w. bind_err (set_word_at (bits bm) y (x div 32) (w OR push_bit (unat (x AND 0x1F)) 1))
          (\<lambda>bs. Inr (bm\<lparr>bits := bs\<rparr>)))"

subsection \<open>SetRegion\<close>

function SetRegion_inner :: "u32 list list \<Rightarrow> u32 \<Rightarrow> u32 \<Rightarrow> u32 \<Rightarrow> error + u32 list list" where
  "SetRegion_inner bs y right x =
     (if x < right then
        bind_err (word_at bs y (x div 32))
          (\<lambda>w. bind_err (set_word_at bs y (x div 32) (w OR push_bit (unat (x AND 0x1F)) 1))
             (\<lambda>bs'. SetRegion_inner bs' y right (x + 1)))
      else Inr bs)"
  by pat_completeness auto
termination
  by (relation "measure (\<lambda>(bs, y, right, x). unat right - unat x)") (auto simp: measure_up)

declare SetRegion_inner.simps [simp del]

function SetRegion_outer :: "u32 list list \<Rightarrow> u32 \<Rightarrow> u32 \<Rightarrow> u32 \<Rightarrow> u32 \<Rightarrow> error + u32 list list" where
  "SetRegion_outer bs left right bottom y =
     (if y < bottom then
        bind_err (SetRegion_inner bs y right left)
          (\<lambda>bs'. SetRegion_outer bs' left right bottom (y + 1))
      else Inr bs)"
  by pat_completeness auto
termination
  by (relation "measure (\<lambda>(bs, left, right, bottom, y). unat bottom - unat y)")
     (auto simp: measure_up)

declare SetRegion_outer.simps [simp del]

text \<open>\<^verbatim>\<open>right\<close> and \<^verbatim>\<open>bottom\<close> are \<^verbatim>\<open>uint32\<close> sums and wrap.\<close>

definition SetRegion :: "BitMatrix \<Rightarrow> u32 \<Rightarrow> u32 \<Rightarrow> u32 \<Rightarrow> u32 \<Rightarrow> error + BitMatrix" where
  "SetRegion bm left top0 w h =
     (if h = 0 \<or> w = 0 then Inl RegionEmpty
      else
        (let right = left + w; bottom = top0 + h in
         if bottom > height bm \<or> right > width bm then Inl RegionMustFit
         else bind_err (SetRegion_outer (bits bm) left right bottom top0)
                (\<lambda>bs. Inr (bm\<lparr>bits := bs\<rparr>))))"

subsection \<open>The bit scans inside a word\<close>

text \<open>
  \<^verbatim>\<open>for theBits<<(31-bit) == 0 { bit++ }\<close> and \<^verbatim>\<open>for (theBits >> bit) == 0 { bit-- }\<close> with
  a \<^verbatim>\<open>uint32\<close> counter. Neither loop returns when \<^verbatim>\<open>theBits\<close> is 0 (a shift count of 32
  or more gives 0), so both are partial: \<open>None\<close> is "does not return".
\<close>

partial_function (option) lowest_bit_loop :: "u32 \<Rightarrow> u32 \<Rightarrow> u32 option" where
  "lowest_bit_loop theBits b =
     (if push_bit (unat (31 - b)) theBits = 0 then lowest_bit_loop theBits (b + 1) else Some b)"

partial_function (option) highest_bit_loop :: "u32 \<Rightarrow> u32 \<Rightarrow> u32 option" where
  "highest_bit_loop theBits b =
     (if drop_bit (unat b) theBits = 0 then highest_bit_loop theBits (b - 1) else Some b)"

declare lowest_bit_loop.simps [code]
declare highest_bit_loop.simps [code]

subsection \<open>GetTopLeftOnBit\<close>

function GetTopLeftOnBit_inner :: "BitMatrix \<Rightarrow> u32 \<Rightarrow> u32 \<Rightarrow> error + u32" where
  "GetTopLeftOnBit_inner bm yOffset xOffset =
     (if xOffset < rowSize bm - 1 then
        bind_err (word_at (bits bm) yOffset xOffset)
          (\<lambda>w. if w = 0 then GetTopLeftOnBit_inner bm yOffset (xOffset + 1) else Inr xOffset)
      else Inr xOffset)"
  by pat_completeness auto
termination
  by (relation "measure (\<lambda>(bm, y, x). unat (rowSize bm - 1) - unat x)")
     (auto simp: measure_up)

declare GetTopLeftOnBit_inner.simps [simp del]

function GetTopLeftOnBit_outer :: "BitMatrix \<Rightarrow> u32 \<Rightarrow> u32 \<Rightarrow> error + (u32 \<times> u32)" where
  "GetTopLeftOnBit_outer bm yOffset xOffset =
     (if yOffset < height bm - 1 then
        bind_err (GetTopLeftOnBit_inner bm yOffset xOffset)
          (\<lambda>x1. bind_err (word_at (bits bm) yOffset x1)
             (\<lambda>w. if w = 0 then GetTopLeftOnBit_outer bm (yOffset + 1) x1
                  else Inr (yOffset, x1)))
      else Inr (yOffset, xOffset))"
  by pat_completeness auto
termination
  by (relation "measure (\<lambda>(bm, y, x). unat (height bm - 1) - unat y)")
     (auto simp: measure_up)

declare GetTopLeftOnBit_outer.simps [simp del]

text \<open>The result is \<open>None\<close> when the call does not return, \<open>Some (Inl e)\<close> when it panics,
  \<open>Some (Inr None)\<close> for \<^verbatim>\<open>nil\<close> and \<open>Some (Inr (Some [x, y]))\<close> for a coordinate.\<close>

definition GetTopLeftOnBit :: "BitMatrix \<Rightarrow> (error + u32 list option) option" where
  "GetTopLeftOnBit bm =
     (case GetTopLeftOnBit_outer bm 0 0 of
        Inl e \<Rightarrow> Some (Inl e)
      | Inr (yOffset, xOffset) \<Rightarrow>
          if yOffset = height bm - 1 \<and> xOffset = rowSize bm - 1 then Some (Inr None)
          else (case word_at (bits bm) yOffset xOffset of
                  Inl e \<Rightarrow> Some (Inl e)
                | Inr theBits \<Rightarrow>
                    (case lowest_bit_loop theBits 0 of
                       None \<Rightarrow> None
                     | Some b \<Rightarrow> Some (Inr (Some [xOffset * 32 + b, yOffset])))))"

subsection \<open>GetBottomRightOnBit\<close>

text \<open>The conditions \<^verbatim>\<open>yOffset >= 0\<close> and \<^verbatim>\<open>xOffset >= 0\<close> are always true for
  \<^verbatim>\<open>uint32\<close>; the loops leave through their \<^verbatim>\<open>break\<close>s.\<close>

function GetBottomRightOnBit_inner :: "BitMatrix \<Rightarrow> u32 \<Rightarrow> u32 \<Rightarrow> error + u32" where
  "GetBottomRightOnBit_inner bm yOffset xOffset =
     bind_err (word_at (bits bm) yOffset xOffset)
       (\<lambda>w. if w = 0 then
              (if xOffset = 0 then Inr xOffset
               else GetBottomRightOnBit_inner bm yOffset (xOffset - 1))
            else Inr xOffset)"
  by pat_completeness auto
termination
  by (relation "measure (\<lambda>(bm, y, x). unat x)") (auto simp: unat_pred_less)

declare GetBottomRightOnBit_inner.simps [simp del]

function GetBottomRightOnBit_outer :: "BitMatrix \<Rightarrow> u32 \<Rightarrow> u32 \<Rightarrow> error + (u32 \<times> u32)" where
  "GetBottomRightOnBit_outer bm yOffset xOffset =
     bind_err (GetBottomRightOnBit_inner bm yOffset xOffset)
       (\<lambda>x1. bind_err (word_at (bits bm) yOffset x1)
          (\<lambda>w. if w = 0 then
                 (if yOffset = 0 then Inr (yOffset, x1)
                  else GetBottomRightOnBit_outer bm (yOffset - 1) x1)
               else Inr (yOffset, x1)))"
  by pat_completeness auto
termination
  by (relation "measure (\<lambda>(bm, y, x). unat y)") (auto simp: unat_pred_less)

declare GetBottomRightOnBit_outer.simps [simp del]

definition GetBottomRightOnBit :: "BitMatrix \<Rightarrow> (error + u32 list option) option" where
  "GetBottomRightOnBit bm =
     (case GetBottomRightOnBit_outer bm (height bm - 1) (rowSize bm - 1) of
        Inl e \<Rightarrow> Some (Inl e)
      | Inr (yOffset, xOffset) \<Rightarrow>
          if yOffset = 0 \<and> xOffset = 0 then Some (Inr None)
          else (case word_at (bits bm) yOffset xOffset of
                  Inl e \<Rightarrow> Some (Inl e)
                | Inr theBits \<Rightarrow>
                    (case highest_bit_loop theBits 31 of
                       None \<Rightarrow> None
                     | Some b \<Rightarrow> Some (Inr (Some [xOffset * 32 + b, yOffset])))))"

subsection \<open>GetEnclosingRectangle\<close>

text \<open>
  The counters of \<^verbatim>\<open>GetEnclosingRectangle\<close> are Go \<^verbatim>\<open>int\<close>s (64 bits; every value here is
  below \<open>2 ^ 33\<close>, so they are modelled as \<open>int\<close>). The conversion \<^verbatim>\<open>uint(i)\<close> of a shift
  count is \<open>i mod 2 ^ 64\<close>. As above, the bit loops do not return for a zero word.
\<close>

definition index_int :: "'a list \<Rightarrow> int \<Rightarrow> error + 'a" where
  "index_int xs i =
     (if 0 \<le> i \<and> i < int (length xs) then Inr (xs ! nat i) else Inl IndexOutOfRange)"

definition uint_of_int :: "int \<Rightarrow> nat" where
  "uint_of_int i = nat (i mod 2 ^ 64)"

partial_function (option) lowest_bit_int :: "u32 \<Rightarrow> int \<Rightarrow> int option" where
  "lowest_bit_int theBits b =
     (if push_bit (uint_of_int (31 - b)) theBits = 0 then lowest_bit_int theBits (b + 1)
      else Some b)"

partial_function (option) highest_bit_int :: "u32 \<Rightarrow> int \<Rightarrow> int option" where
  "highest_bit_int theBits b =
     (if drop_bit (uint_of_int b) theBits = 0 then highest_bit_int theBits (b - 1)
      else Some b)"

declare lowest_bit_int.simps [code]
declare highest_bit_int.simps [code]

text \<open>The body of the two loops for one word; the state is \<open>(left, top, right, bottom)\<close>.\<close>

definition scan_word :: "int \<times> int \<times> int \<times> int \<Rightarrow> int \<Rightarrow> int \<Rightarrow> u32 \<Rightarrow> (int \<times> int \<times> int \<times> int) option" where
  "scan_word st y x32 theBits =
     (case st of (left, top0, right, bottom) \<Rightarrow>
        if theBits \<noteq> 0 then
          (let top1 = (if y < top0 then y else top0);
               bottom1 = (if y > bottom then y else bottom)
           in Option.bind
                (if x32 * 32 < left then
                   Option.bind (lowest_bit_int theBits 0)
                     (\<lambda>b. Some (if x32 * 32 + b < left then x32 * 32 + b else left))
                 else Some left)
                (\<lambda>left1.
                   Option.bind
                     (if x32 * 32 + 31 > right then
                        Option.bind (highest_bit_int theBits 31)
                          (\<lambda>b. Some (if x32 * 32 + b > right then x32 * 32 + b else right))
                      else Some right)
                     (\<lambda>right1. Some (left1, top1, right1, bottom1))))
        else Some st)"

text \<open>Results of the loops: \<open>None\<close> when a bit loop does not return, \<open>Some (Inl e)\<close> for a
  panic, \<open>Some (Inr st)\<close> for the state after the loop.\<close>

function GetEnclosingRectangle_inner :: "BitMatrix \<Rightarrow> int \<Rightarrow> int \<times> int \<times> int \<times> int \<Rightarrow> int \<Rightarrow> (error + int \<times> int \<times> int \<times> int) option" where
  "GetEnclosingRectangle_inner bm y st x32 =
     (if x32 < uint (rowSize bm) then
        (case bind_err (index_int (bits bm) y) (\<lambda>row. index_int row x32) of
           Inl e \<Rightarrow> Some (Inl e)
         | Inr theBits \<Rightarrow>
             (case scan_word st y x32 theBits of
                None \<Rightarrow> None
              | Some st' \<Rightarrow> GetEnclosingRectangle_inner bm y st' (x32 + 1)))
      else Some (Inr st))"
  by pat_completeness auto
termination
  by (relation "measure (\<lambda>(bm, y, st, x32). nat (uint (rowSize bm) - x32))") auto

declare GetEnclosingRectangle_inner.simps [simp del]

function GetEnclosingRectangle_outer :: "BitMatrix \<Rightarrow> int \<times> int \<times> int \<times> int \<Rightarrow> int \<Rightarrow> (error + int \<times> int \<times> int \<times> int) option" where
  "GetEnclosingRectangle_outer bm st y =
     (if y < uint (height bm) then
        (case GetEnclosingRectangle_inner bm y st 0 of
           None \<Rightarrow> None
         | Some (Inl e) \<Rightarrow> Some (Inl e)
         | Some (Inr st') \<Rightarrow> GetEnclosingRectangle_outer bm st' (y + 1))
      else Some (Inr st))"
  by pat_completeness auto
termination
  by (relation "measure (\<lambda>(bm, st, y). nat (uint (height bm) - y))") auto

declare GetEnclosingRectangle_outer.simps [simp del]

definition GetEnclosingRectangle :: "BitMatrix \<Rightarrow> (error + u32 list option) option" where
  "GetEnclosingRectangle bm =
     (case GetEnclosingRectangle_outer bm (uint (width bm), uint (height bm), - 1, - 1) 0 of
        None \<Rightarrow> None
      | Some (Inl e) \<Rightarrow> Some (Inl e)
      | Some (Inr (left, top0, right, bottom)) \<Rightarrow>
          if right < left \<or> bottom < top0 then Some (Inr None)
          else Some (Inr (Some [word_of_int left, word_of_int top0,
                                word_of_int (right - left + 1),
                                word_of_int (bottom - top0 + 1)])))"

subsection \<open>Rows: GetRow, SetRow, Rotate180\<close>

text \<open>
  \<^verbatim>\<open>internal.SliceCopyU32\<close>. A slice argument is \<open>None\<close> for \<^verbatim>\<open>nil\<close>; positions and
  length are Go \<^verbatim>\<open>int\<close>s. The result is the destination after the copy.
\<close>

definition store_int :: "'a list \<Rightarrow> int \<Rightarrow> 'a \<Rightarrow> error + 'a list" where
  "store_int xs i v =
     (if 0 \<le> i \<and> i < int (length xs) then Inr (xs[nat i := v]) else Inl IndexOutOfRange)"

function SliceCopyU32_loop :: "u32 list \<Rightarrow> u32 list \<Rightarrow> int \<Rightarrow> int \<Rightarrow> int \<Rightarrow> int \<Rightarrow> error + u32 list" where
  "SliceCopyU32_loop src dest srcPos destPos len i =
     (if i < len then
        bind_err (index_int src (srcPos + i))
          (\<lambda>v. bind_err (store_int dest (destPos + i) v)
             (\<lambda>dest'. SliceCopyU32_loop src dest' srcPos destPos len (i + 1)))
      else Inr dest)"
  by pat_completeness auto
termination
  by (relation "measure (\<lambda>(src, dest, srcPos, destPos, len, i). nat (len - i))") auto

declare SliceCopyU32_loop.simps [simp del]

definition SliceCopyU32 :: "u32 list option \<Rightarrow> u32 list option \<Rightarrow> int \<Rightarrow> int \<Rightarrow> int \<Rightarrow> error + u32 list" where
  "SliceCopyU32 src dest srcPos destPos len =
     (case (src, dest) of
        (Some s, Some d) \<Rightarrow>
          if srcPos < 0 \<or> destPos < 0 then Inl PositionNegative
          else if len < 0 then Inl LengthNegative
          else if int (length s) < srcPos + len then Inl SrcTooShort
          else if int (length d) < destPos + len then Inl DestTooShort
          else SliceCopyU32_loop s d srcPos destPos len 0
      | _ \<Rightarrow> Inl SliceIsNil)"

text \<open>\<^verbatim>\<open>SetRow\<close>: the buffers of a \<^verbatim>\<open>BitArray\<close> and of a grid row come from \<^verbatim>\<open>make\<close> and
  are never \<^verbatim>\<open>nil\<close>.\<close>

definition SetRow :: "BitMatrix \<Rightarrow> u32 \<Rightarrow> BitArray \<Rightarrow> error + BitMatrix" where
  "SetRow bm y row =
     bind_err (index (bits bm) (unat y))
       (\<lambda>dest. bind_err (SliceCopyU32 (Some (abits row)) (Some dest) 0 0 (uint (rowSize bm)))
          (\<lambda>dest'. Inr (bm\<lparr>bits := (bits bm)[unat y := dest']\<rparr>)))"

function GetRow_loop :: "BitMatrix \<Rightarrow> u32 \<Rightarrow> BitArray \<Rightarrow> u32 \<Rightarrow> error + BitArray" where
  "GetRow_loop bm y row x =
     (if x < rowSize bm then
        bind_err (word_at (bits bm) y x)
          (\<lambda>w. bind_err (SetBulk row (x * 32) w) (\<lambda>row'. GetRow_loop bm y row' (x + 1)))
      else Inr row)"
  by pat_completeness auto
termination
  by (relation "measure (\<lambda>(bm, y, row, x). unat (rowSize bm) - unat x)") (auto simp: measure_up)

declare GetRow_loop.simps [simp del]

text \<open>The \<^verbatim>\<open>row\<close> argument is a pointer: \<open>None\<close> is \<^verbatim>\<open>nil\<close>.\<close>

definition GetRow :: "BitMatrix \<Rightarrow> u32 \<Rightarrow> BitArray option \<Rightarrow> error + BitArray" where
  "GetRow bm y row =
     GetRow_loop bm y
       (case row of
          None \<Rightarrow> NewBitArray (width bm)
        | Some r \<Rightarrow> if asize r < width bm then NewBitArray (width bm) else AClear r)
       0"

text \<open>The loop of \<^verbatim>\<open>Rotate180\<close>; \<open>h\<close> is the local \<^verbatim>\<open>height\<close> read before the loop.\<close>

function Rotate180_loop :: "BitMatrix \<Rightarrow> u32 \<Rightarrow> BitArray \<Rightarrow> BitArray \<Rightarrow> u32 \<Rightarrow> error + BitMatrix" where
  "Rotate180_loop bm h topRow bottomRow i =
     (if i < (h + 1) div 2 then
        bind_err (GetRow bm i (Some topRow))
          (\<lambda>top1. bind_err (GetRow bm (h - 1 - i) (Some bottomRow))
             (\<lambda>bottom1. bind_err (Reverse top1)
                (\<lambda>top2. bind_err (Reverse bottom1)
                   (\<lambda>bottom2. bind_err (SetRow bm i bottom2)
                      (\<lambda>bm1. bind_err (SetRow bm1 (h - 1 - i) top2)
                         (\<lambda>bm2. Rotate180_loop bm2 h top2 bottom2 (i + 1)))))))
      else Inr bm)"
  by pat_completeness auto
termination
  by (relation "measure (\<lambda>(bm, h, t, b, i). unat ((h + 1) div 2) - unat i)")
     (auto simp: measure_up)

declare Rotate180_loop.simps [simp del]

definition Rotate180 :: "BitMatrix \<Rightarrow> error + BitMatrix" where
  "Rotate180 bm =
     Rotate180_loop bm (height bm) (NewBitArray (width bm)) (NewBitArray (width bm)) 0"

text \<open>\<^verbatim>\<open>BitMatrix.Equals\<close>: equal dimensions and equal words.\<close>

function Equals_row :: "u32 list list \<Rightarrow> u32 list list \<Rightarrow> u32 \<Rightarrow> u32 \<Rightarrow> u32 \<Rightarrow> error + bool" where
  "Equals_row bs obs n y x =
     (if x < n then
        bind_err (word_at bs y x)
          (\<lambda>w. bind_err (word_at obs y x)
             (\<lambda>ow. if w \<noteq> ow then Inr False else Equals_row bs obs n y (x + 1)))
      else Inr True)"
  by pat_completeness auto
termination
  by (relation "measure (\<lambda>(bs, obs, n, y, x). unat n - unat x)") (auto simp: measure_up)

declare Equals_row.simps [simp del]

function Equals_rows :: "u32 list list \<Rightarrow> u32 list list \<Rightarrow> u32 \<Rightarrow> u32 \<Rightarrow> u32 \<Rightarrow> error + bool" where
  "Equals_rows bs obs h n y =
     (if y < h then
        bind_err (Equals_row bs obs n y 0)
          (\<lambda>same. if same then Equals_rows bs obs h n (y + 1) else Inr False)
      else Inr True)"
  by pat_completeness auto
termination
  by (relation "measure (\<lambda>(bs, obs, h, n, y). unat h - unat y)") (auto simp: measure_up)

declare Equals_rows.simps [simp del]

definition Equals :: "BitMatrix \<Rightarrow> BitMatrix \<Rightarrow> error + bool" where
  "Equals bm other =
     (if width bm = width other \<and> height bm = height other \<and> rowSize bm = rowSize other
      then Equals_rows (bits bm) (bits other) (height bm) (rowSize bm) 0
      else Inr False)"

subsection \<open>Text: ToString and ParseStringToBitMatrix\<close>

text \<open>
  A Go string is a sequence of bytes: it is the \<open>char list\<close> of its bytes (a \<open>char\<close> has 8
  bits), and \<^verbatim>\<open>len(s)\<close> is the length of that list. \<^verbatim>\<open>ToString\<close> writes the bytes of the
  tokens and of the separator to a \<^verbatim>\<open>bytes.Buffer\<close>.
\<close>

function buildToString_row :: "BitMatrix \<Rightarrow> string \<Rightarrow> string \<Rightarrow> u32 \<Rightarrow> u32 \<Rightarrow> string \<Rightarrow> error + string" where
  "buildToString_row bm setString unsetString y x result =
     (if x < width bm then
        bind_err (Get bm x y)
          (\<lambda>b. buildToString_row bm setString unsetString y (x + 1)
                 (result @ (if b then setString else unsetString)))
      else Inr result)"
  by pat_completeness auto
termination
  by (relation "measure (\<lambda>(bm, s, u, y, x, r). unat (width bm) - unat x)")
     (auto simp: measure_up)

declare buildToString_row.simps [simp del]

function buildToString_rows :: "BitMatrix \<Rightarrow> string \<Rightarrow> string \<Rightarrow> string \<Rightarrow> u32 \<Rightarrow> string \<Rightarrow> error + string" where
  "buildToString_rows bm setString unsetString lineSeperator y result =
     (if y < height bm then
        bind_err (buildToString_row bm setString unsetString y 0 result)
          (\<lambda>r. buildToString_rows bm setString unsetString lineSeperator (y + 1)
                 (r @ lineSeperator))
      else Inr result)"
  by pat_completeness auto
termination
  by (relation "measure (\<lambda>(bm, s, u, l, y, r). unat (height bm) - unat y)")
     (auto simp: measure_up)

declare buildToString_rows.simps [simp del]

definition buildToString :: "BitMatrix \<Rightarrow> string \<Rightarrow> string \<Rightarrow> string \<Rightarrow> error + string" where
  "buildToString bm setString unsetString lineSeperator =
     buildToString_rows bm setString unsetString lineSeperator 0 []"

definition ToString :: "BitMatrix \<Rightarrow> string \<Rightarrow> string \<Rightarrow> error + string" where
  "ToString bm setString unsetString = buildToString bm setString unsetString [CHR 0x0A]"

text \<open>
  The parser works on runes. A \<^verbatim>\<open>rune\<close> is an \<^verbatim>\<open>int32\<close>; the parser only compares runes
  for equality, and the runes of a conversion are code points from 0 to \<open>0x10FFFF\<close>, so
  the unsigned order of the words is the order of the code points.
\<close>

type_synonym rune = "32 word"

definition byte :: "char \<Rightarrow> 8 word" where
  "byte c = of_char c"

definition rune_of_byte :: "8 word \<Rightarrow> rune" where
  "rune_of_byte b = ucast b"

text \<open>
  The conversion \<^verbatim>\<open>[]rune(s)\<close> decodes the bytes as UTF-8, as a \<^verbatim>\<open>range\<close> loop over the
  string does: a byte below \<open>0x80\<close> is its own rune; otherwise the runtime's
  \<^verbatim>\<open>decoderune\<close> reads a sequence of two, three or four bytes, and where there is no
  well-formed sequence (a continuation byte out of range, a missing byte, an overlong
  encoding, a surrogate, a value above \<open>0x10FFFF\<close>) the rune is \<open>0xFFFD\<close> and one byte is
  consumed. \<open>decoderune s\<close> is the rune at the head of the bytes \<open>s\<close> and the number of
  bytes it takes.
\<close>

definition continuation :: "8 word \<Rightarrow> bool" where
  "continuation b = (0x80 \<le> b \<and> b \<le> 0xBF)"

definition decoderune :: "8 word list \<Rightarrow> rune \<times> nat" where
  "decoderune s =
     (let s0 = s ! 0 in
      if 0xC0 \<le> s0 \<and> s0 < 0xE0 then
        (if 1 < length s \<and> continuation (s ! 1) then
           (let r = push_bit 6 (rune_of_byte (s0 AND 0x1F)) OR rune_of_byte (s ! 1 AND 0x3F)
            in if 0x7F < r then (r, 2) else (0xFFFD, 1))
         else (0xFFFD, 1))
      else if 0xE0 \<le> s0 \<and> s0 < 0xF0 then
        (if 2 < length s \<and> continuation (s ! 1) \<and> continuation (s ! 2) then
           (let r = push_bit 12 (rune_of_byte (s0 AND 0x0F))
                    OR push_bit 6 (rune_of_byte (s ! 1 AND 0x3F))
                    OR rune_of_byte (s ! 2 AND 0x3F)
            in if 0x7FF < r \<and> \<not> (0xD800 \<le> r \<and> r \<le> 0xDFFF) then (r, 3) else (0xFFFD, 1))
         else (0xFFFD, 1))
      else if 0xF0 \<le> s0 \<and> s0 < 0xF8 then
        (if 3 < length s \<and> continuation (s ! 1) \<and> continuation (s ! 2)
            \<and> continuation (s ! 3) then
           (let r = push_bit 18 (rune_of_byte (s0 AND 0x07))
                    OR push_bit 12 (rune_of_byte (s ! 1 AND 0x3F))
                    OR push_bit 6 (rune_of_byte (s ! 2 AND 0x3F))
                    OR rune_of_byte (s ! 3 AND 0x3F)
            in if 0xFFFF < r \<and> r \<le> 0x10FFFF then (r, 4) else (0xFFFD, 1))
         else (0xFFFD, 1))
      else (0xFFFD, 1))"

lemma decoderune_width: "decoderune s = (r, n) \<Longrightarrow> 0 < n"
  by (auto simp: decoderune_def Let_def split: if_splits)

function stringtoslicerune :: "string \<Rightarrow> rune list" where
  "stringtoslicerune s =
     (case s of
        [] \<Rightarrow> []
      | c # cs \<Rightarrow>
          if byte c < 0x80 then rune_of_byte (byte c) # stringtoslicerune cs
          else (case decoderune (map byte s) of (r, n) \<Rightarrow> r # stringtoslicerune (drop n s)))"
  by pat_completeness auto
termination
  by (relation "measure length") (auto dest: decoderune_width [OF sym])

declare stringtoslicerune.simps [simp del]

text \<open>\<^verbatim>\<open>internal.CompareRuneSlices\<close>.\<close>

function CompareRuneSlices_loop :: "rune list \<Rightarrow> rune list \<Rightarrow> nat \<Rightarrow> bool" where
  "CompareRuneSlices_loop a b i =
     (if i < length a then (if a ! i \<noteq> b ! i then False else CompareRuneSlices_loop a b (i + 1))
      else True)"
  by pat_completeness auto
termination
  by (relation "measure (\<lambda>(a, b, i). length a - i)") auto

declare CompareRuneSlices_loop.simps [simp del]

definition CompareRuneSlices :: "rune list \<Rightarrow> rune list \<Rightarrow> bool" where
  "CompareRuneSlices a b = (if length a \<noteq> length b then False else CompareRuneSlices_loop a b 0)"

text \<open>
  The slice expression \<^verbatim>\<open>runes[lo:hi]\<close>. Go allows \<open>hi\<close> up to the capacity of the slice,
  not only its length; the capacity of a \<^verbatim>\<open>[]rune(s)\<close> conversion is chosen by the runtime
  (at least the length, the elements beyond the length are zero), so it is a parameter
  \<open>cp\<close> of the model. Beyond the capacity the expression panics.
\<close>

definition slice_runes :: "nat \<Rightarrow> rune list \<Rightarrow> int \<Rightarrow> int \<Rightarrow> error + rune list" where
  "slice_runes cp runes lo hi =
     (if 0 \<le> lo \<and> lo \<le> hi \<and> hi \<le> int (max cp (length runes))
      then Inr (take (nat hi - nat lo)
                  (drop (nat lo) (runes @ replicate (cp - length runes) 0)))
      else Inl SliceBoundsOutOfRange)"

text \<open>Integer division and remainder of Go truncate towards zero.\<close>

definition go_quot :: "int \<Rightarrow> int \<Rightarrow> int" where
  "go_quot a b = sgn a * sgn b * (\<bar>a\<bar> div \<bar>b\<bar>)"

definition go_rem :: "int \<Rightarrow> int \<Rightarrow> int" where
  "go_rem a b = a - b * go_quot a b"

text \<open>The parsing loop, on the runes of the text and of the two tokens. The state is
  \<open>(pos, bitsPos, rowStartPos, rowLength, nRows, bits)\<close>.\<close>

type_synonym parse_state = "int \<times> int \<times> int \<times> int \<times> int \<times> bool list"

function Parse_loop :: "nat \<Rightarrow> rune list \<Rightarrow> rune list \<Rightarrow> rune list \<Rightarrow> parse_state \<Rightarrow> error + parse_state" where
  "Parse_loop cp runes setRunes unsetRunes (pos, bitsPos, rowStartPos, rowLength, nRows, bs) =
     (if pos < int (length runes) then
        bind_err (index_int runes pos)
          (\<lambda>c.
            if c = 0x0A \<or> c = 0x0D then
              (if bitsPos > rowStartPos then
                 (if rowLength = - 1 then
                    Parse_loop cp runes setRunes unsetRunes
                      (pos + 1, bitsPos, bitsPos, bitsPos - rowStartPos, nRows + 1, bs)
                  else if bitsPos - rowStartPos \<noteq> rowLength then Inl RowLengthsDoNotMatch
                  else Parse_loop cp runes setRunes unsetRunes
                         (pos + 1, bitsPos, bitsPos, rowLength, nRows + 1, bs))
               else Parse_loop cp runes setRunes unsetRunes
                      (pos + 1, bitsPos, rowStartPos, rowLength, nRows, bs))
            else
              bind_err (slice_runes cp runes pos (pos + int (length setRunes)))
                (\<lambda>s1.
                  if CompareRuneSlices s1 setRunes then
                    bind_err (store_int bs bitsPos True)
                      (\<lambda>bs'. Parse_loop cp runes setRunes unsetRunes
                         (pos + int (length setRunes), bitsPos + 1, rowStartPos, rowLength,
                          nRows, bs'))
                  else
                    bind_err (slice_runes cp runes pos (pos + int (length unsetRunes)))
                      (\<lambda>s2.
                        if CompareRuneSlices s2 unsetRunes then
                          bind_err (store_int bs bitsPos False)
                            (\<lambda>bs'. Parse_loop cp runes setRunes unsetRunes
                               (pos + int (length unsetRunes), bitsPos + 1, rowStartPos,
                                rowLength, nRows, bs'))
                        else Inl IllegalCharacter)))
      else Inr (pos, bitsPos, rowStartPos, rowLength, nRows, bs))"
  by pat_completeness auto
termination
proof (relation "measures [\<lambda>(cp, runes, s, u, (pos, bitsPos, rsp, rl, nr, bs)). nat (int (length runes) - pos),
                           \<lambda>(cp, runes, s, u, (pos, bitsPos, rsp, rl, nr, bs)). length bs - nat bitsPos]",
       goal_cases)
  case 1
  show ?case by simp
next
  case 2 then show ?case by simp
next
  case 3 then show ?case by simp
next
  case 4 then show ?case by simp
next
  case (5 cp runes setRunes unsetRunes pos bitsPos rowStartPos rowLength nRows bs c s1 bs')
  then show ?case
    by (cases "length setRunes = 0") (auto simp: store_int_def split: if_splits)
next
  case (6 cp runes setRunes unsetRunes pos bitsPos rowStartPos rowLength nRows bs c s1 s2 bs')
  then show ?case
    by (cases "length unsetRunes = 0") (auto simp: store_int_def split: if_splits)
qed

declare Parse_loop.simps [simp del]

text \<open>The loop that sets the parsed bits in the new grid. It runs only after
  \<^verbatim>\<open>NewBitMatrix\<close> has accepted \<^verbatim>\<open>rowLength\<close>, which is then at least 1.\<close>

function Parse_fill :: "BitMatrix \<Rightarrow> bool list \<Rightarrow> int \<Rightarrow> int \<Rightarrow> int \<Rightarrow> error + BitMatrix" where
  "Parse_fill matrix bs rowLength bitsPos i =
     (if i < bitsPos then
        bind_err (index_int bs i)
          (\<lambda>b. if b then
                 bind_err (Set matrix (word_of_int (go_rem i rowLength))
                                      (word_of_int (go_quot i rowLength)))
                   (\<lambda>m. Parse_fill m bs rowLength bitsPos (i + 1))
               else Parse_fill matrix bs rowLength bitsPos (i + 1))
      else Inr matrix)"
  by pat_completeness auto
termination
  by (relation "measure (\<lambda>(m, bs, rl, bp, i). nat (bp - i))") auto

declare Parse_fill.simps [simp del]

text \<open>
  \<^verbatim>\<open>ParseStringToBitMatrix\<close>: the parsed bits go to a slice of \<^verbatim>\<open>len(stringRepresentation)\<close>
  entries, the number of bytes of the text; the loop runs over the runes of the text and
  compares with the runes of the tokens. \<open>cp\<close> is the capacity of the rune slice of the
  text.
\<close>

definition ParseStringToBitMatrix :: "nat \<Rightarrow> string \<Rightarrow> string \<Rightarrow> string \<Rightarrow> error + BitMatrix" where
  "ParseStringToBitMatrix cp stringRepresentation setString unsetString =
     bind_err (Parse_loop cp (stringtoslicerune stringRepresentation)
                 (stringtoslicerune setString) (stringtoslicerune unsetString)
                 (0, 0, 0, - 1, 0, replicate (length stringRepresentation) False))
       (\<lambda>(pos, bitsPos, rowStartPos, rowLength, nRows, bs).
          bind_err
            (if bitsPos > rowStartPos then
               (if rowLength = - 1 then Inr (bitsPos - rowStartPos, nRows + 1)
                else if bitsPos - rowStartPos \<noteq> rowLength then Inl RowLengthsDoNotMatch
                else Inr (rowLength, nRows + 1))
             else Inr (rowLength, nRows))
            (\<lambda>(rowLength1, nRows1).
               bind_err (NewBitMatrix (word_of_int rowLength1) (word_of_int nRows1))
                 (\<lambda>matrix. Parse_fill matrix bs rowLength1 bitsPos 0)))"

section \<open>Invariants and predicates used in the claims\<close>

text \<open>The shape invariant of the data model: one row per line of the grid, \<open>rowSize\<close>
  words in every row, and \<open>rowSize\<close> the number of words that \<open>width\<close> bits need.\<close>

definition wf_BitMatrix :: "BitMatrix \<Rightarrow> bool" where
  "wf_BitMatrix bm =
     (length (bits bm) = unat (height bm)
      \<and> list_all (\<lambda>row. length row = unat (rowSize bm)) (bits bm)
      \<and> unat (rowSize bm) = (unat (width bm) + 31) div 32)"

text \<open>Bits beyond \<open>width\<close> in the words of a row are clear: word \<open>k\<close> of a row has no bit
  at or above position \<open>width - 32 * k\<close>.\<close>

definition padding_clear :: "BitMatrix \<Rightarrow> bool" where
  "padding_clear bm =
     list_all (\<lambda>row. \<forall>k \<in> {..<length row}. drop_bit (unat (width bm) - 32 * k) (row ! k) = 0)
       (bits bm)"

text \<open>The bit at column \<open>x\<close> of row \<open>y\<close> of the rows, for the \<^verbatim>\<open>int\<close> coordinates that
  \<^verbatim>\<open>GetEnclosingRectangle\<close> computes with.\<close>

definition on_bit :: "u32 list list \<Rightarrow> int \<Rightarrow> int \<Rightarrow> bool" where
  "on_bit bs x y =
     (0 \<le> x \<and> 0 \<le> y \<and> nat y < length bs \<and> nat (x div 32) < length (bs ! nat y)
      \<and> bit (bs ! nat y ! nat (x div 32)) (nat (x mod 32)))"

text \<open>
  The loop invariant of \<^verbatim>\<open>GetEnclosingRectangle\<close>, for the part \<open>P\<close> of the grid scanned so
  far: every set bit scanned lies within the four bounds, and each bound either still has
  its initial value (\<open>W\<close>, \<open>H\<close>, \<open>-1\<close>, \<open>-1\<close>) or is met by a set bit already scanned.
\<close>

definition rect_inv :: "int \<Rightarrow> int \<Rightarrow> u32 list list \<Rightarrow> (int \<Rightarrow> int \<Rightarrow> bool) \<Rightarrow> int \<times> int \<times> int \<times> int \<Rightarrow> bool" where
  "rect_inv W H bs P st =
     (case st of (left, top0, right, bottom) \<Rightarrow>
        (\<forall>x y. on_bit bs x y \<and> P x y \<longrightarrow> left \<le> x \<and> x \<le> right \<and> top0 \<le> y \<and> y \<le> bottom)
        \<and> (left = W \<or> (\<exists>y. on_bit bs left y \<and> P left y))
        \<and> (right = - 1 \<or> (\<exists>y. on_bit bs right y \<and> P right y))
        \<and> (top0 = H \<or> (\<exists>x. on_bit bs x top0 \<and> P x top0))
        \<and> (bottom = - 1 \<or> (\<exists>x. on_bit bs x bottom \<and> P x bottom)))"









text \<open>The bit that \<^verbatim>\<open>Get\<close> reads, on the rows alone.\<close>

definition get_bits :: "u32 list list \<Rightarrow> u32 \<Rightarrow> u32 \<Rightarrow> error + bool" where
  "get_bits bs x y =
     bind_err (word_at bs y (x div 32)) (\<lambda>w. Inr (bit w (unat (x AND 0x1F))))"

section \<open>Claims about BitArray\<close>

text \<open>
  C2 (\<^verbatim>\<open>GetNextUnset\<close> returns the first unset bit at or after \<^verbatim>\<open>from\<close>): the code masks
  the first word with \<^verbatim>\<open>from & 0x3F\<close> where \<^verbatim>\<open>GetNextSet\<close> uses \<^verbatim>\<open>from & 0x1F\<close>. On a
  fresh 64-bit sequence bit 32 is unset, yet \<^verbatim>\<open>GetNextUnset(32)\<close> answers 64, the size:
  the shift by 32 clears the whole mask.
\<close>

theorem GetNextUnset_misses_unset_bit:
  "AGet (NewBitArray 64) 32 = Inr False \<and> GetNextUnset (NewBitArray 64) 32 = Inr 64"
  by code_simp

text \<open>
  C10 (\<^verbatim>\<open>Equals\<close> never reads a word out of range): the empty sequence of
  \<^verbatim>\<open>NewEmptyBitArray\<close> owns one word and \<^verbatim>\<open>NewBitArray(0)\<close> owns none; both have size 0,
  and comparing the first with the second reads word 0 of an empty buffer. The same
  happens after \<^verbatim>\<open>AppendBit\<close> has grown a 32-bit sequence to 33 words, against the two
  words of \<^verbatim>\<open>NewBitArray(33)\<close>.
\<close>

theorem Equals_reads_out_of_range:
  "AEquals NewEmptyBitArray (NewBitArray 0) = Inl IndexOutOfRange
   \<and> bind_err (AppendBit (NewBitArray 32) False) (\<lambda>a. AEquals a (NewBitArray 33))
       = Inl IndexOutOfRange
   \<and> bind_err (AppendBit (NewBitArray 32) False) (\<lambda>a. Inr (length (abits a), asize a))
       = Inr (33, 33)"
  by code_simp

section \<open>Claims about the on-bit scans\<close>

text \<open>
  C1 (\<^verbatim>\<open>GetBottomRightOnBit\<close> returns the last set bit, and \<^verbatim>\<open>nil\<close> only for a clear
  grid; on a grid whose only set bit is at (0,0) it returns {0, 0}): the scan ends at
  word 0 of row 0 both when the grid is clear and when the last set bit lies in that
  word, and the test \<^verbatim>\<open>yOffset == 0 && xOffset == 0\<close> answers \<^verbatim>\<open>nil\<close> for both. On the
  5 by 5 grid with only (0,0) set the bit is read as set and the result is \<^verbatim>\<open>nil\<close>.
\<close>

theorem GetBottomRightOnBit_nil_at_origin:
  "bind_err (NewBitMatrix 5 5) (\<lambda>m. Set m 0 0)
     = Inr \<lparr>width = 5, height = 5, rowSize = 1, bits = [[1], [0], [0], [0], [0]]\<rparr>
   \<and> Get \<lparr>width = 5, height = 5, rowSize = 1, bits = [[1], [0], [0], [0], [0]]\<rparr> 0 0
     = Inr True
   \<and> GetBottomRightOnBit
       \<lparr>width = 5, height = 5, rowSize = 1, bits = [[1], [0], [0], [0], [0]]\<rparr>
     = Some (Inr None)"
  by code_simp

text \<open>
  C3 (\<^verbatim>\<open>GetTopLeftOnBit\<close> returns the first set bit, and \<^verbatim>\<open>nil\<close> only for a clear grid):
  the row loop stops before the last row (\<^verbatim>\<open>yOffset < bm.height-1\<close>) and the result is
  \<^verbatim>\<open>nil\<close> whenever the scan ends at the last word of the last row, set or not. On the
  5 by 5 grid with only (2,4) set the bit is read as set and the result is \<^verbatim>\<open>nil\<close>. The
  example of the claim, \<^verbatim>\<open>SetRegion(1,1,3,3)\<close> on a 5 by 5 grid, does give {1, 1}.
\<close>

theorem GetTopLeftOnBit_nil_on_last_row:
  "bind_err (NewBitMatrix 5 5) (\<lambda>m. Set m 2 4)
     = Inr \<lparr>width = 5, height = 5, rowSize = 1, bits = [[0], [0], [0], [0], [4]]\<rparr>
   \<and> Get \<lparr>width = 5, height = 5, rowSize = 1, bits = [[0], [0], [0], [0], [4]]\<rparr> 2 4
     = Inr True
   \<and> GetTopLeftOnBit
       \<lparr>width = 5, height = 5, rowSize = 1, bits = [[0], [0], [0], [0], [4]]\<rparr>
     = Some (Inr None)
   \<and> bind_err (NewBitMatrix 5 5)
         (\<lambda>m. bind_err (SetRegion m 1 1 3 3) (\<lambda>m'. Inr (GetTopLeftOnBit m')))
     = Inr (Some (Inr (Some [1, 1])))"
  by code_simp

section \<open>Claims about rows and reversal\<close>

lemma int_less_uint: "(int n < uint (w :: u32)) = (n < unat w)"
  unfolding uint_nat by (rule of_nat_less_iff)

text \<open>The copy loop from position 0: the first \<open>len\<close> words of the destination become the
  first \<open>len\<close> words of the source.\<close>

lemma SliceCopyU32_loop_from0:
  "0 \<le> i \<Longrightarrow> i \<le> len \<Longrightarrow> len \<le> int (length s) \<Longrightarrow> len \<le> int (length d) \<Longrightarrow>
   SliceCopyU32_loop s d 0 0 len i
     = Inr (take (nat i) d @ take (nat len - nat i) (drop (nat i) s) @ drop (nat len) d)"
proof (induction s d "0::int" "0::int" len i rule: SliceCopyU32_loop.induct)
  case (1 src dest len i)
  show ?case
  proof (cases "i < len")
    case False
    with 1 have "i = len" by simp
    then show ?thesis
      by (subst SliceCopyU32_loop.simps) simp
  next
    case True
    let ?d = "dest[nat i := src ! nat i]"
    have ii: "index_int src (0 + i) = Inr (src ! nat i)"
      using 1 True by (simp add: index_int_def)
    have st: "store_int dest (0 + i) (src ! nat i) = Inr ?d"
      using 1 True by (simp add: store_int_def)
    have IH: "SliceCopyU32_loop src ?d 0 0 len (i + 1)
        = Inr (take (nat (i + 1)) ?d @ take (nat len - nat (i + 1)) (drop (nat (i + 1)) src)
               @ drop (nat len) ?d)"
      using "1.hyps"[OF True ii st] 1 True by simp
    have n1: "nat (i + 1) = Suc (nat i)" using 1 by simp
    have lt: "nat i < nat len" using 1 True by simp
    have l1: "nat i < length dest" "nat i < length src" using 1 True by auto
    have a: "take (Suc (nat i)) ?d = take (nat i) dest @ [src ! nat i]"
      using l1 by (simp add: take_Suc_conv_app_nth)
    have b: "drop (nat len) ?d = drop (nat len) dest"
      using lt by simp
    have c: "take (nat len - nat i) (drop (nat i) src)
        = src ! nat i # take (nat len - Suc (nat i)) (drop (Suc (nat i)) src)"
      using lt l1 by (metis Cons_nth_drop_Suc Suc_diff_Suc take_Suc_Cons)
    show ?thesis
      apply (subst SliceCopyU32_loop.simps)
      using True ii st IH by (simp add: bind_err_def n1 a b c)
  qed
qed

text \<open>
  C4, as stated (\<^verbatim>\<open>SetRow\<close> copies min(rowSize, word count of the sequence) words and
  succeeds on a shorter sequence), fails: \<^verbatim>\<open>SliceCopyU32\<close> refuses a source shorter than
  the requested length. A 64 wide grid has two words per row; a 32-bit sequence has one.
\<close>

theorem SetRow_short_sequence_counterexample:
  "NewBitMatrix 64 1 = Inr \<lparr>width = 64, height = 1, rowSize = 2, bits = [[0, 0]]\<rparr>
   \<and> NewBitArray 32 = \<lparr>abits = [0], asize = 32\<rparr>
   \<and> SetRow \<lparr>width = 64, height = 1, rowSize = 2, bits = [[0, 0]]\<rparr> 0
         \<lparr>abits = [0], asize = 32\<rparr> = Inl SrcTooShort"
  by code_simp

text \<open>
  C4, amended: for a valid row index \<open>y\<close> whose row holds \<open>rowSize\<close> words, \<^verbatim>\<open>SetRow(y, row)\<close>
  fails with the error of \<^verbatim>\<open>SliceCopyU32\<close> and changes nothing when the sequence holds
  fewer than \<open>rowSize\<close> words; otherwise it succeeds and row \<open>y\<close> becomes exactly the first
  \<open>rowSize\<close> words of the sequence, every other row and the dimensions unchanged.
\<close>

theorem SetRow_copies_rowSize_words:
  assumes "unat y < length (bits bm)" and "length (bits bm ! unat y) = unat (rowSize bm)"
  shows "SetRow bm y row =
     (if length (abits row) < unat (rowSize bm) then Inl SrcTooShort
      else Inr (bm\<lparr>bits := (bits bm)[unat y := take (unat (rowSize bm)) (abits row)]\<rparr>))"
proof (cases "length (abits row) < unat (rowSize bm)")
  case True
  then have "int (length (abits row)) < uint (rowSize bm)"
    by (simp add: int_less_uint)
  then show ?thesis using assms True
    by (simp add: SetRow_def index_def bind_err_def SliceCopyU32_def)
next
  case False
  have le1: "uint (rowSize bm) \<le> int (length (abits row))"
    using False by (simp add: int_less_uint linorder_not_less [symmetric])
  have le2: "uint (rowSize bm) \<le> int (length (bits bm ! unat y))"
    using assms(2) by (simp add: int_less_uint linorder_not_less [symmetric])
  have "SliceCopyU32_loop (abits row) (bits bm ! unat y) 0 0 (uint (rowSize bm)) 0
     = Inr (take (unat (rowSize bm)) (abits row))"
    using le1 le2 assms(2) by (subst SliceCopyU32_loop_from0) (auto simp: nat_uint_eq)
  then show ?thesis using False assms
    by (simp add: SetRow_def index_def bind_err_def SliceCopyU32_def int_less_uint)
qed

theorem SetRow_copies_rowSize_words_witness:
  "SetRow \<lparr>width = 64, height = 2, rowSize = 2, bits = [[0, 0], [7, 8]]\<rparr> 1
      \<lparr>abits = [1, 2, 3], asize = 96\<rparr>
     = Inr \<lparr>width = 64, height = 2, rowSize = 2, bits = [[0, 0], [1, 2]]\<rparr>
   \<and> SetRow \<lparr>width = 64, height = 2, rowSize = 2, bits = [[0, 0], [7, 8]]\<rparr> 1
      \<lparr>abits = [1], asize = 32\<rparr> = Inl SrcTooShort"
  using SetRow_copies_rowSize_words
          [of 1 "\<lparr>width = 64, height = 2, rowSize = 2, bits = [[0, 0], [7, 8]]\<rparr>"
              "\<lparr>abits = [1, 2, 3], asize = 96\<rparr>"]
        SetRow_copies_rowSize_words
          [of 1 "\<lparr>width = 64, height = 2, rowSize = 2, bits = [[0, 0], [7, 8]]\<rparr>"
              "\<lparr>abits = [1], asize = 32\<rparr>"]
  by simp

text \<open>
  C5 (\<^verbatim>\<open>Reverse\<close> agrees with the bit-by-bit reversal for every size): the loop that
  shifts the reversed words right by the padding never resets \<^verbatim>\<open>currentInt\<close> to the
  remaining high bits of \<^verbatim>\<open>nextInt\<close>, so for a size above 32 that is not a multiple of 32
  words after the first are wrong. On the buffer of \<^verbatim>\<open>TestBitArray_ReverseAlgorithmTest\<close>
  at size 33, word 1 is a copy of word 0 where the reference reversal has 0.
\<close>

theorem Reverse_differs_from_reverseOriginal:
  "Reverse \<lparr>abits = [128, 256, 512, 6453324, 50934953], asize = 33\<rparr>
     = Inr \<lparr>abits = [33554432, 33554432, 0, 0, 0], asize = 33\<rparr>
   \<and> reverseOriginal [128, 256, 512, 6453324, 50934953] 33 = Inr [33554432, 0, 0, 0, 0]"
  by code_simp

text \<open>
  C6 (\<^verbatim>\<open>Rotate180\<close> twice gives the original grid): rows are reversed by \<^verbatim>\<open>Reverse\<close>, so
  on a grid 33 wide the rotation is already wrong. The 33 by 1 grid with only (0,0) set
  becomes the clear grid, and rotating again leaves it clear.
\<close>

theorem Rotate180_twice_differs:
  "bind_err (NewBitMatrix 33 1) (\<lambda>m. Set m 0 0)
     = Inr \<lparr>width = 33, height = 1, rowSize = 2, bits = [[1, 0]]\<rparr>
   \<and> Rotate180 \<lparr>width = 33, height = 1, rowSize = 2, bits = [[1, 0]]\<rparr>
     = Inr \<lparr>width = 33, height = 1, rowSize = 2, bits = [[0, 0]]\<rparr>
   \<and> bind_err (Rotate180 \<lparr>width = 33, height = 1, rowSize = 2, bits = [[1, 0]]\<rparr>) Rotate180
     = Inr \<lparr>width = 33, height = 1, rowSize = 2, bits = [[0, 0]]\<rparr>
   \<and> bind_err (bind_err (Rotate180 \<lparr>width = 33, height = 1, rowSize = 2, bits = [[1, 0]]\<rparr>)
                Rotate180)
        (\<lambda>m. Equals m \<lparr>width = 33, height = 1, rowSize = 2, bits = [[1, 0]]\<rparr>)
     = Inr False"
  by code_simp

section \<open>Claims about SetRegion\<close>

subsection \<open>Bits of a word\<close>

lemma and31_mod: "(x :: u32) AND 0x1F = x mod 32"
  using word_mod_2p_is_mask [of 5 x] by (simp add: mask_eq_exp_minus_1)

lemma word_div_mod_eq: "(x :: u32) div 32 = x0 div 32 \<Longrightarrow> x AND 0x1F = x0 AND 0x1F \<Longrightarrow> x = x0"
  by (metis and31_mod div_mult_mod_eq)

lemma unat_and31_less: "unat ((x :: u32) AND 0x1F) < 32"
proof -
  have "unat (x mod 32) = unat x mod 32"
    by (simp add: unat_mod_distrib)
  then show ?thesis by (simp add: and31_mod)
qed

lemma test_bit: "((drop_bit j (w :: u32) AND 1) \<noteq> 0) = bit w j"
  by (simp add: and_one_eq bit_iff_odd_drop_bit mod2_eq_if)

lemma test_bit_or: "i < 32 \<Longrightarrow> bit ((w :: u32) OR 2 ^ i) j = (j = i \<or> bit w j)"
  by (auto simp: bit_simps)

lemma Get_get_bits: "Get bm x y = get_bits (bits bm) x y"
  by (simp add: Get_def get_bits_def test_bit)

lemma word_at_Inr:
  "(word_at bs y k = Inr w) =
   (unat y < length bs \<and> unat k < length (bs ! unat y) \<and> w = bs ! unat y ! unat k)"
  by (auto simp: word_at_def index_def bind_err_def)

lemma set_word_at_Inr:
  "(set_word_at bs y k v = Inr bs') =
   (unat y < length bs \<and> unat k < length (bs ! unat y)
    \<and> bs' = bs[unat y := (bs ! unat y)[unat k := v]])"
  by (auto simp: set_word_at_def index_def store_def bind_err_def)

lemma set_bit_step:
  assumes "word_at bs y (x div 32) = Inr w"
    and "set_word_at bs y (x div 32) (w OR push_bit (unat (x AND 0x1F)) 1) = Inr bs'"
  shows "get_bits bs' x0 y0 = (if x0 = x \<and> y0 = y then Inr True else get_bits bs x0 y0)"
proof -
  let ?k = "unat (x div 32)"
  let ?w' = "w OR push_bit (unat (x AND 0x1F)) 1"
  from assms have y: "unat y < length bs" and k: "?k < length (bs ! unat y)"
    and w: "w = bs ! unat y ! ?k"
    and bs': "bs' = bs[unat y := (bs ! unat y)[?k := ?w']]"
    by (simp_all add: word_at_Inr set_word_at_Inr)
  show ?thesis
  proof (cases "y0 = y")
    case False
    then have "unat y0 \<noteq> unat y" by (simp add: word_unat_eq_iff)
    then show ?thesis using False
      by (simp add: get_bits_def word_at_def index_def bs')
  next
    case True
    show ?thesis
    proof (cases "x0 div 32 = x div 32")
      case False
      then have "unat (x0 div 32) \<noteq> ?k" by (simp add: word_unat_eq_iff)
      moreover from False have "x0 \<noteq> x" by auto
      ultimately show ?thesis using True y
        by (simp add: get_bits_def word_at_def index_def bs' bind_err_def)
    next
      case same: True
      have "(unat (x0 AND 0x1F) = unat (x AND 0x1F)) = (x0 = x)"
      proof
        assume "unat (x0 AND 0x1F) = unat (x AND 0x1F)"
        then have "x0 AND 0x1F = x AND 0x1F" by (simp only: word_unat_eq_iff)
        with same show "x0 = x" by (rule word_div_mod_eq)
      qed simp
      then show ?thesis using True y k same w
        by (simp add: get_bits_def word_at_def index_def bs' bind_err_def
                      test_bit_or unat_and31_less)
    qed
  qed
qed


lemma SetRegion_inner_bits:
  "SetRegion_inner bs y right x = Inr bs' \<Longrightarrow>
   get_bits bs' x0 y0 = (if y0 = y \<and> x \<le> x0 \<and> x0 < right then Inr True else get_bits bs x0 y0)"
proof (induction bs y right x arbitrary: bs' rule: SetRegion_inner.induct)
  case (1 bs y right x)
  show ?case
  proof (cases "x < right")
    case False
    with "1.prems" have "bs' = bs"
      by (subst (asm) SetRegion_inner.simps) simp
    moreover from False have "\<not> (x \<le> x0 \<and> x0 < right)" by auto
    ultimately show ?thesis by auto
  next
    case True
    from "1.prems" True obtain w bs1 where
      w: "word_at bs y (x div 32) = Inr w" and
      s: "set_word_at bs y (x div 32) (w OR push_bit (unat (x AND 0x1F)) 1) = Inr bs1" and
      r: "SetRegion_inner bs1 y right (x + 1) = Inr bs'"
      by (subst (asm) SetRegion_inner.simps) (auto simp: bind_err_def split: sum.splits)
    have IH: "get_bits bs' x0 y0 =
        (if y0 = y \<and> x + 1 \<le> x0 \<and> x0 < right then Inr True else get_bits bs1 x0 y0)"
      by (rule "1.IH" [OF True w s r])
    have st: "get_bits bs1 x0 y0 = (if x0 = x \<and> y0 = y then Inr True else get_bits bs x0 y0)"
      by (rule set_bit_step [OF w s])
    have "(x + 1 \<le> x0 \<or> x0 = x) = (x \<le> x0)"
      using True by unat_arith
    then show ?thesis using IH st True by auto
  qed
qed

lemma SetRegion_outer_bits:
  "SetRegion_outer bs left right bottom y = Inr bs' \<Longrightarrow>
   get_bits bs' x0 y0 =
     (if y \<le> y0 \<and> y0 < bottom \<and> left \<le> x0 \<and> x0 < right then Inr True
      else get_bits bs x0 y0)"
proof (induction bs left right bottom y arbitrary: bs' rule: SetRegion_outer.induct)
  case (1 bs left right bottom y)
  show ?case
  proof (cases "y < bottom")
    case False
    with "1.prems" have "bs' = bs"
      by (subst (asm) SetRegion_outer.simps) simp
    moreover from False have "\<not> (y \<le> y0 \<and> y0 < bottom)" by auto
    ultimately show ?thesis by auto
  next
    case True
    from "1.prems" True obtain bs1 where
      s: "SetRegion_inner bs y right left = Inr bs1" and
      r: "SetRegion_outer bs1 left right bottom (y + 1) = Inr bs'"
      by (subst (asm) SetRegion_outer.simps) (auto simp: bind_err_def split: sum.splits)
    have IH: "get_bits bs' x0 y0 =
        (if y + 1 \<le> y0 \<and> y0 < bottom \<and> left \<le> x0 \<and> x0 < right then Inr True
         else get_bits bs1 x0 y0)"
      by (rule "1.IH" [OF True s r])
    have st: "get_bits bs1 x0 y0 =
        (if y0 = y \<and> left \<le> x0 \<and> x0 < right then Inr True else get_bits bs x0 y0)"
      by (rule SetRegion_inner_bits [OF s])
    have "(y + 1 \<le> y0 \<or> y0 = y) = (y \<le> y0)"
      using True by unat_arith
    then show ?thesis using IH st True by auto
  qed
qed

lemma unat_div32: "unat ((x :: u32) div 32) = unat x div 32"
  by (simp add: unat_div)

lemma set_word_at_shape:
  "set_word_at bs y k v = Inr bs' \<Longrightarrow> map length bs' = map length bs"
  by (auto simp: set_word_at_Inr map_update list_update_same_conv)

lemma SetRegion_inner_ok:
  "unat y < length bs \<Longrightarrow> unat right \<le> 32 * length (bs ! unat y) \<Longrightarrow>
   \<exists>bs'. SetRegion_inner bs y right x = Inr bs' \<and> map length bs' = map length bs"
proof (induction bs y right x rule: SetRegion_inner.induct)
  case (1 bs y right x)
  show ?case
  proof (cases "x < right")
    case False
    then show ?thesis by (subst SetRegion_inner.simps) simp
  next
    case True
    then have "unat x < unat right" by (simp add: word_less_nat_alt)
    with "1.prems" have k: "unat (x div 32) < length (bs ! unat y)"
      by (simp add: unat_div32) 
    define w where "w = bs ! unat y ! unat (x div 32)"
    define bs1 where "bs1 = bs[unat y := (bs ! unat y)[unat (x div 32) := w OR push_bit (unat (x AND 0x1F)) 1]]"
    have wa: "word_at bs y (x div 32) = Inr w"
      using "1.prems" k by (simp add: word_at_Inr w_def)
    have sa: "set_word_at bs y (x div 32) (w OR push_bit (unat (x AND 0x1F)) 1) = Inr bs1"
      using "1.prems" k by (simp add: set_word_at_Inr bs1_def)
    have sh: "map length bs1 = map length bs"
      by (rule set_word_at_shape [OF sa])
    have "unat y < length bs1" "unat right \<le> 32 * length (bs1 ! unat y)"
      using "1.prems" by (simp_all add: bs1_def)
    from "1.IH" [OF True wa sa this] obtain bs' where
      "SetRegion_inner bs1 y right (x + 1) = Inr bs'" "map length bs' = map length bs1"
      by blast
    then show ?thesis using True wa sa sh
      by (subst SetRegion_inner.simps) (simp add: bind_err_def)
  qed
qed

lemma SetRegion_outer_ok:
  "unat bottom \<le> length bs \<Longrightarrow> list_all (\<lambda>row. unat right \<le> 32 * length row) bs \<Longrightarrow>
   \<exists>bs'. SetRegion_outer bs left right bottom y = Inr bs' \<and> map length bs' = map length bs"
proof (induction bs left right bottom y rule: SetRegion_outer.induct)
  case (1 bs left right bottom y)
  show ?case
  proof (cases "y < bottom")
    case False
    then show ?thesis by (subst SetRegion_outer.simps) simp
  next
    case True
    then have y: "unat y < length bs" using "1.prems" by (simp add: word_less_nat_alt)
    then have "unat right \<le> 32 * length (bs ! unat y)"
      using "1.prems" by (simp add: list_all_length)
    from SetRegion_inner_ok [OF y this] obtain bs1 where
      s: "SetRegion_inner bs y right left = Inr bs1" and sh: "map length bs1 = map length bs"
      by blast
    from sh have len: "length bs1 = length bs" by (rule map_eq_imp_length_eq)
    have nth: "length (bs1 ! i) = length (bs ! i)" if "i < length bs" for i
    proof -
      have "map length bs1 ! i = map length bs ! i" by (simp only: sh)
      then show ?thesis using that len by simp
    qed
    have la: "list_all (\<lambda>row. unat right \<le> 32 * length row) bs1"
      using "1.prems"(2) len nth by (simp add: list_all_length)
    have bl: "unat bottom \<le> length bs1"
      using "1.prems"(1) len by simp
    from "1.IH" [OF True s bl la] obtain bs' where
      "SetRegion_outer bs1 left right bottom (y + 1) = Inr bs'" "map length bs' = map length bs1"
      by blast
    then show ?thesis using True s sh
      by (subst SetRegion_outer.simps) (simp add: bind_err_def)
  qed
qed

text \<open>
  C8: for a rectangle that fits in the grid (\<open>left + w \<le> width\<close> and \<open>top + h \<le> height\<close>
  as natural numbers), whenever \<^verbatim>\<open>SetRegion\<close> succeeds the dimensions are unchanged, every
  bit with \<open>left \<le> x < left + w\<close> and \<open>top \<le> y < top + h\<close> reads as set, and \<^verbatim>\<open>Get\<close> answers
  at every other position exactly what it answered before. On a grid that satisfies the
  shape invariant, with \<open>w\<close> and \<open>h\<close> at least 1, it does succeed.
\<close>

theorem SetRegion_sets_exactly_the_region:
  assumes fit: "unat left + unat w \<le> unat (width bm)" "unat top0 + unat h \<le> unat (height bm)"
  shows "(\<forall>bm'. SetRegion bm left top0 w h = Inr bm' \<longrightarrow>
            width bm' = width bm \<and> height bm' = height bm \<and> rowSize bm' = rowSize bm
            \<and> (\<forall>x y. Get bm' x y =
                  (if unat left \<le> unat x \<and> unat x < unat left + unat w
                      \<and> unat top0 \<le> unat y \<and> unat y < unat top0 + unat h
                   then Inr True else Get bm x y)))
       \<and> (wf_BitMatrix bm \<and> w \<noteq> 0 \<and> h \<noteq> 0 \<longrightarrow>
            (\<exists>bm'. SetRegion bm left top0 w h = Inr bm'))"
proof -
  have wl: "unat (width bm) < 2 ^ 32" "unat (height bm) < 2 ^ 32"
    using unsigned_less [of "width bm"] unsigned_less [of "height bm"] by simp_all
  have r: "unat (left + w) = unat left + unat w"
    using fit(1) wl by (simp add: unat_word_ariths)
  have b: "unat (top0 + h) = unat top0 + unat h"
    using fit(2) wl by (simp add: unat_word_ariths)
  have effect: "width bm' = width bm \<and> height bm' = height bm \<and> rowSize bm' = rowSize bm
            \<and> (\<forall>x y. Get bm' x y =
                  (if unat left \<le> unat x \<and> unat x < unat left + unat w
                      \<and> unat top0 \<le> unat y \<and> unat y < unat top0 + unat h
                   then Inr True else Get bm x y))"
    if ok: "SetRegion bm left top0 w h = Inr bm'" for bm'
  proof -
    from ok obtain bs where
      lp: "SetRegion_outer (bits bm) left (left + w) (top0 + h) top0 = Inr bs" and
      bm': "bm' = bm\<lparr>bits := bs\<rparr>"
      by (auto simp: SetRegion_def Let_def bind_err_def split: if_splits sum.splits)
    have "Get bm' x y =
        (if unat left \<le> unat x \<and> unat x < unat left + unat w
            \<and> unat top0 \<le> unat y \<and> unat y < unat top0 + unat h
         then Inr True else Get bm x y)" for x y
      using SetRegion_outer_bits [OF lp, of x y]
      by (simp add: Get_get_bits bm' word_le_nat_alt word_less_nat_alt r b conj_ac)
    then show ?thesis by (simp add: bm')
  qed
  have success: "\<exists>bm'. SetRegion bm left top0 w h = Inr bm'"
    if wf: "wf_BitMatrix bm" and nz: "w \<noteq> 0" "h \<noteq> 0"
  proof -
    have c1: "\<not> top0 + h > height bm" "\<not> left + w > width bm"
      using fit by (simp_all add: word_less_nat_alt r b)
    have "unat (top0 + h) \<le> length (bits bm)"
      using wf fit by (simp add: wf_BitMatrix_def b)
    moreover have "list_all (\<lambda>row. unat (left + w) \<le> 32 * length row) (bits bm)"
      using wf fit(1) by (auto simp: wf_BitMatrix_def r list_all_iff)
    ultimately obtain bs where
      "SetRegion_outer (bits bm) left (left + w) (top0 + h) top0 = Inr bs"
      using SetRegion_outer_ok by blast
    then show ?thesis using c1 nz
      by (simp add: SetRegion_def Let_def bind_err_def)
  qed
  show ?thesis using effect success by blast
qed

theorem SetRegion_sets_exactly_the_region_witness:
  "SetRegion \<lparr>width = 5, height = 5, rowSize = 1, bits = [[0], [0], [1], [0], [0]]\<rparr> 1 1 3 3
     = Inr \<lparr>width = 5, height = 5, rowSize = 1, bits = [[0], [14], [15], [14], [0]]\<rparr>
   \<and> (\<forall>x y. Get \<lparr>width = 5, height = 5, rowSize = 1, bits = [[0], [14], [15], [14], [0]]\<rparr> x y
        = (if 1 \<le> unat x \<and> unat x < 4 \<and> 1 \<le> unat y \<and> unat y < 4 then Inr True
           else Get \<lparr>width = 5, height = 5, rowSize = 1, bits = [[0], [0], [1], [0], [0]]\<rparr> x y))
   \<and> wf_BitMatrix \<lparr>width = 5, height = 5, rowSize = 1, bits = [[0], [0], [1], [0], [0]]\<rparr>"
proof -
  let ?m = "\<lparr>width = 5, height = 5, rowSize = 1, bits = [[0], [0], [1], [0], [0 :: u32]]\<rparr>"
  let ?m' = "\<lparr>width = 5, height = 5, rowSize = 1, bits = [[0], [14], [15], [14], [0 :: u32]]\<rparr>"
  have run: "SetRegion ?m 1 1 3 3 = Inr ?m'"
    by code_simp
  have wf: "wf_BitMatrix ?m"
    by (simp add: wf_BitMatrix_def)
  have fit: "unat (1 :: u32) + unat (3 :: u32) \<le> unat (width ?m)"
    "unat (1 :: u32) + unat (3 :: u32) \<le> unat (height ?m)"
    by simp_all
  from SetRegion_sets_exactly_the_region [OF fit] run
  have "\<forall>x y. Get ?m' x y
        = (if unat (1 :: u32) \<le> unat x \<and> unat x < unat (1 :: u32) + unat (3 :: u32)
              \<and> unat (1 :: u32) \<le> unat y \<and> unat y < unat (1 :: u32) + unat (3 :: u32)
           then Inr True else Get ?m x y)"
    by blast
  then show ?thesis using run wf by simp
qed

section \<open>Claims about GetEnclosingRectangle\<close>

subsection \<open>The bit loops on a non-zero word\<close>

lemma uint_of_int_small: "0 \<le> i \<Longrightarrow> i < 64 \<Longrightarrow> uint_of_int i = nat i"
  by (simp add: uint_of_int_def)

lemma lowest_bit_int_least:
  assumes "bit w k" "\<forall>j<k. \<not> bit w j" "b \<le> k"
  shows "lowest_bit_int w (int b) = Some (int k)"
  using assms(3)
proof (induction "k - b" arbitrary: b)
  case 0
  then have bk: "b = k" by simp
  have k32: "k < 32" using assms(1) by (auto dest: bit_imp_le_length)
  have "bit (push_bit (31 - k) w) 31"
    using assms(1) k32 by (simp add: bit_push_bit_iff)
  then have "push_bit (31 - k) w \<noteq> 0" by auto
  moreover have "uint_of_int (31 - int k) = 31 - k"
    using k32 by (simp add: uint_of_int_small)
  ultimately show ?case
    by (subst lowest_bit_int.simps) (simp add: bk)
next
  case (Suc d)
  then have lt: "b < k" by simp
  have k32: "k < 32" using assms(1) by (auto dest: bit_imp_le_length)
  have "push_bit (31 - b) w = 0"
  proof (rule bit_eqI)
    fix n
    show "bit (push_bit (31 - b) w) n = bit (0 :: u32) n"
      using assms(2) lt by (auto simp: bit_push_bit_iff dest!: bit_imp_le_length)
  qed
  moreover have "uint_of_int (31 - int b) = 31 - b"
    using k32 lt by (simp add: uint_of_int_small)
  moreover have "lowest_bit_int w (int (Suc b)) = Some (int k)"
    using Suc lt by (intro Suc.hyps(1)) simp_all
  ultimately show ?case
    by (subst lowest_bit_int.simps) (simp add: add.commute)
qed

lemma highest_bit_int_greatest:
  assumes "bit w k" "\<forall>j>k. \<not> bit w j" "k \<le> b" "b < 32"
  shows "highest_bit_int w (int b) = Some (int k)"
  using assms(3,4)
proof (induction "b - k" arbitrary: b)
  case 0
  then have bk: "b = k" by simp
  have "bit (drop_bit k w) 0"
    using assms(1) by (simp add: bit_drop_bit_eq)
  then have nz: "drop_bit k w \<noteq> 0" by auto
  have u: "uint_of_int (int k) = k"
    using 0 bk by (simp add: uint_of_int_small)
  show ?case
    unfolding bk by (subst highest_bit_int.simps) (simp only: u nz simp_thms if_False)
next
  case (Suc d)
  then have lt: "k < b" by simp
  have z: "drop_bit b w = 0"
  proof (rule bit_eqI)
    fix n
    show "bit (drop_bit b w) n = bit (0 :: u32) n"
      using assms(2) lt by (simp add: bit_drop_bit_eq)
  qed
  have u: "uint_of_int (int b) = b"
    using Suc.prems by (simp add: uint_of_int_small)
  have d: "d = (b - 1) - k" using Suc.hyps(2) by simp
  have IH: "highest_bit_int w (int (b - 1)) = Some (int k)"
    using lt Suc.prems by (intro Suc.hyps(1) [OF d]) simp_all
  have e: "int b - 1 = int (b - 1)" using lt by simp
  have "highest_bit_int w (int b) = highest_bit_int w (int b - 1)"
    by (subst highest_bit_int.simps) (simp only: u z simp_thms if_True)
  then show ?case by (simp only: e IH)
qed

lemma nonzero_word_bits:
  assumes "(w :: u32) \<noteq> 0"
  obtains lo hi where "bit w lo" "\<forall>j<lo. \<not> bit w j" "bit w hi" "\<forall>j>hi. \<not> bit w j"
    "lo \<le> hi" "hi < 32"
proof -
  from assms obtain n where n: "bit w n" by (auto simp: bit_eq_iff)
  define lo where "lo = (LEAST n. bit w n)"
  define hi where "hi = (GREATEST n. bit w n)"
  have bnd: "m \<le> 32" if "bit w m" for m
    using that by (auto dest!: bit_imp_le_length)
  have 1: "bit w lo" unfolding lo_def using n by (rule LeastI)
  have 2: "\<forall>j<lo. \<not> bit w j" unfolding lo_def by (auto dest: not_less_Least)
  have 3: "bit w hi" unfolding hi_def using n bnd by (rule GreatestI_nat)
  have 4: "\<forall>j>hi. \<not> bit w j"
  proof (intro allI impI notI)
    fix j assume "hi < j" "bit w j"
    from this(2) bnd have "j \<le> hi" unfolding hi_def by (rule Greatest_le_nat)
    with \<open>hi < j\<close> show False by simp
  qed
  have 5: "lo \<le> hi"
  proof (rule ccontr)
    assume "\<not> lo \<le> hi"
    then have "hi < lo" by simp
    with 2 3 show False by blast
  qed
  have 6: "hi < 32" using 3 by (auto dest: bit_imp_le_length)
  from 1 2 3 4 5 6 show ?thesis by (rule that)
qed

subsection \<open>One word of the scan\<close>

lemma scan_word_zero: "scan_word st y x32 0 = Some st"
  by (simp add: scan_word_def split: prod.splits)

lemma scan_word_nonzero:
  assumes "bit w lo" "\<forall>j<lo. \<not> bit w j" "bit w hi" "\<forall>j>hi. \<not> bit w j" "hi < 32"
  shows "scan_word (left, top0, right, bottom) y x32 w
     = Some (min left (x32 * 32 + int lo), min top0 y, max right (x32 * 32 + int hi), max bottom y)"
proof -
  have nz: "w \<noteq> 0" using assms(1) by auto
  have lo: "lowest_bit_int w 0 = Some (int lo)"
    using lowest_bit_int_least [OF assms(1,2), of 0] by simp
  have hi: "highest_bit_int w 31 = Some (int hi)"
    using highest_bit_int_greatest [OF assms(3,4), of 31] assms(5) by simp
  have "int hi \<le> 31" using assms(5) by simp
  then show ?thesis
    by (simp add: scan_word_def nz lo hi Let_def min_def max_def)
qed

lemma rect_inv_mono_zero:
  assumes inv: "rect_inv W H bs P st"
    and new: "\<And>x y. on_bit bs x y \<Longrightarrow> Q x y \<Longrightarrow> False"
  shows "rect_inv W H bs (\<lambda>x y. P x y \<or> Q x y) st"
proof -
  obtain left top0 right bottom where st: "st = (left, top0, right, bottom)"
    by (cases st) auto
  from inv have
    I1: "\<And>x y. on_bit bs x y \<Longrightarrow> P x y \<Longrightarrow> left \<le> x \<and> x \<le> right \<and> top0 \<le> y \<and> y \<le> bottom" and
    L: "left = W \<or> (\<exists>y. on_bit bs left y \<and> P left y)" and
    R: "right = - 1 \<or> (\<exists>y. on_bit bs right y \<and> P right y)" and
    T: "top0 = H \<or> (\<exists>x. on_bit bs x top0 \<and> P x top0)" and
    B: "bottom = - 1 \<or> (\<exists>x. on_bit bs x bottom \<and> P x bottom)"
    unfolding rect_inv_def st by auto
  have 1: "\<forall>x y. on_bit bs x y \<and> (P x y \<or> Q x y) \<longrightarrow>
      left \<le> x \<and> x \<le> right \<and> top0 \<le> y \<and> y \<le> bottom"
    using I1 new by blast
  have 2: "left = W \<or> (\<exists>y. on_bit bs left y \<and> (P left y \<or> Q left y))" using L by blast
  have 3: "right = - 1 \<or> (\<exists>y. on_bit bs right y \<and> (P right y \<or> Q right y))" using R by blast
  have 4: "top0 = H \<or> (\<exists>x. on_bit bs x top0 \<and> (P x top0 \<or> Q x top0))" using T by blast
  have 5: "bottom = - 1 \<or> (\<exists>x. on_bit bs x bottom \<and> (P x bottom \<or> Q x bottom))" using B by blast
  show ?thesis unfolding rect_inv_def st using 1 2 3 4 5 by simp
qed

lemma rect_inv_extend:
  assumes inv: "rect_inv W H bs P (left, top0, right, bottom)"
    and rng: "\<And>x y'. on_bit bs x y' \<Longrightarrow> Q x y' \<Longrightarrow> y' = y \<and> a \<le> x \<and> x \<le> b"
    and ona: "on_bit bs a y" "Q a y" and onb: "on_bit bs b y" "Q b y"
  shows "rect_inv W H bs (\<lambda>x y. P x y \<or> Q x y)
           (min left a, min top0 y, max right b, max bottom y)"
proof -
  from inv have
    I1: "\<And>x y. on_bit bs x y \<Longrightarrow> P x y \<Longrightarrow> left \<le> x \<and> x \<le> right \<and> top0 \<le> y \<and> y \<le> bottom" and
    L: "left = W \<or> (\<exists>y. on_bit bs left y \<and> P left y)" and
    R: "right = - 1 \<or> (\<exists>y. on_bit bs right y \<and> P right y)" and
    T: "top0 = H \<or> (\<exists>x. on_bit bs x top0 \<and> P x top0)" and
    B: "bottom = - 1 \<or> (\<exists>x. on_bit bs x bottom \<and> P x bottom)"
    unfolding rect_inv_def by auto
  have 1: "\<forall>x y'. on_bit bs x y' \<and> (P x y' \<or> Q x y') \<longrightarrow>
      min left a \<le> x \<and> x \<le> max right b \<and> min top0 y \<le> y' \<and> y' \<le> max bottom y"
  proof (intro allI impI)
    fix x y' assume h: "on_bit bs x y' \<and> (P x y' \<or> Q x y')"
    show "min left a \<le> x \<and> x \<le> max right b \<and> min top0 y \<le> y' \<and> y' \<le> max bottom y"
    proof (cases "P x y'")
      case True
      with h I1 [of x y'] show ?thesis by auto
    next
      case False
      with h rng [of x y'] show ?thesis by auto
    qed
  qed
  have 2: "min left a = W \<or> (\<exists>y'. on_bit bs (min left a) y' \<and> (P (min left a) y' \<or> Q (min left a) y'))"
  proof (cases "left \<le> a")
    case True
    then have "min left a = left" by simp
    then show ?thesis using L by auto
  next
    case False
    then have "min left a = a" by simp
    then show ?thesis using ona by auto
  qed
  have 3: "max right b = - 1 \<or> (\<exists>y'. on_bit bs (max right b) y' \<and> (P (max right b) y' \<or> Q (max right b) y'))"
  proof (cases "b \<le> right")
    case True
    then have "max right b = right" by simp
    then show ?thesis using R by auto
  next
    case False
    then have "max right b = b" by simp
    then show ?thesis using onb by auto
  qed
  have 4: "min top0 y = H \<or> (\<exists>x. on_bit bs x (min top0 y) \<and> (P x (min top0 y) \<or> Q x (min top0 y)))"
  proof (cases "top0 \<le> y")
    case True
    then have "min top0 y = top0" by simp
    then show ?thesis using T by auto
  next
    case False
    then have "min top0 y = y" by simp
    then show ?thesis using ona by auto
  qed
  have 5: "max bottom y = - 1 \<or> (\<exists>x. on_bit bs x (max bottom y) \<and> (P x (max bottom y) \<or> Q x (max bottom y)))"
  proof (cases "y \<le> bottom")
    case True
    then have "max bottom y = bottom" by simp
    then show ?thesis using B by auto
  next
    case False
    then have "max bottom y = y" by simp
    then show ?thesis using ona by auto
  qed
  show ?thesis unfolding rect_inv_def using 1 2 3 4 5 by simp
qed

lemma rect_inv_cong:
  assumes "\<And>x y. on_bit bs x y \<Longrightarrow> P x y = P' x y"
  shows "rect_inv W H bs P st = rect_inv W H bs P' st"
proof -
  have "(on_bit bs x y \<and> P x y) = (on_bit bs x y \<and> P' x y)" for x y
    using assms by blast
  then show ?thesis unfolding rect_inv_def by simp
qed

lemma less_uint_nat: "0 \<le> i \<Longrightarrow> (i < uint (w :: u32)) = (nat i < unat w)"
proof -
  assume "0 \<le> i"
  then have "(nat i < nat (uint w)) = (i < uint w)" by (rule nat_less_eq_zless)
  then show ?thesis by (simp only: unat_eq_nat_uint)
qed

lemma scan_word_step:
  assumes inv: "rect_inv W H bs P st"
    and y: "0 \<le> y" "nat y < length bs" and x: "0 \<le> x32" "nat x32 < length (bs ! nat y)"
  shows "\<exists>st'. scan_word st y x32 (bs ! nat y ! nat x32) = Some st'
           \<and> rect_inv W H bs (\<lambda>x' y'. P x' y' \<or> (y' = y \<and> x' div 32 = x32)) st'"
proof -
  let ?w = "bs ! nat y ! nat x32"
  have newbit: "bit ?w (nat (x' mod 32))" if "on_bit bs x' y'" "y' = y \<and> x' div 32 = x32" for x' y'
    using that by (simp add: on_bit_def)
  show ?thesis
  proof (cases "?w = 0")
    case True
    have "rect_inv W H bs (\<lambda>x' y'. P x' y' \<or> (y' = y \<and> x' div 32 = x32)) st"
      using inv
    proof (rule rect_inv_mono_zero)
      fix x' y' assume "on_bit bs x' y'" "y' = y \<and> x' div 32 = x32"
      then have "bit ?w (nat (x' mod 32))" by (rule newbit)
      with True show False by simp
    qed
    then show ?thesis by (simp add: True scan_word_zero)
  next
    case False
    then obtain lo hi where
      b: "bit ?w lo" "\<forall>j<lo. \<not> bit ?w j" "bit ?w hi" "\<forall>j>hi. \<not> bit ?w j" "lo \<le> hi" "hi < 32"
      by (rule nonzero_word_bits)
    obtain left top0 right bottom where st: "st = (left, top0, right, bottom)"
      by (cases st) auto
    have sw: "scan_word st y x32 ?w
        = Some (min left (x32 * 32 + int lo), min top0 y, max right (x32 * 32 + int hi), max bottom y)"
      unfolding st using b(1,2,3,4,6) by (rule scan_word_nonzero)
    have dm: "(x32 * 32 + int k) div 32 = x32 \<and> (x32 * 32 + int k) mod 32 = int k" if "k < 32" for k
      using that by simp
    have onk: "on_bit bs (x32 * 32 + int k) y" if "bit ?w k" "k < 32" for k
      using that y x dm [OF that(2)] by (simp add: on_bit_def)
    have lo32: "lo < 32" using b(5,6) by simp
    have "rect_inv W H bs (\<lambda>x' y'. P x' y' \<or> (y' = y \<and> x' div 32 = x32))
           (min left (x32 * 32 + int lo), min top0 y, max right (x32 * 32 + int hi), max bottom y)"
    proof (rule rect_inv_extend)
      show "rect_inv W H bs P (left, top0, right, bottom)" using inv st by simp
    next
      fix x' y' assume h: "on_bit bs x' y'" "y' = y \<and> x' div 32 = x32"
      then have bt: "bit ?w (nat (x' mod 32))" by (rule newbit)
      have "lo \<le> nat (x' mod 32)" using bt b(2) by (meson not_le)
      moreover have "nat (x' mod 32) \<le> hi" using bt b(4) by (meson not_le)
      moreover have "x' = x32 * 32 + x' mod 32" using h(2) div_mult_mod_eq [of x' 32] by simp
      ultimately show "y' = y \<and> x32 * 32 + int lo \<le> x' \<and> x' \<le> x32 * 32 + int hi"
        using h(2) by linarith
    next
      show "on_bit bs (x32 * 32 + int lo) y" using b(1) lo32 by (rule onk)
      show "y = y \<and> (x32 * 32 + int lo) div 32 = x32" using dm [OF lo32] by simp
      show "on_bit bs (x32 * 32 + int hi) y" using b(3,6) by (rule onk)
      show "y = y \<and> (x32 * 32 + int hi) div 32 = x32" using dm [OF b(6)] by simp
    qed
    with sw show ?thesis by simp
  qed
qed

subsection \<open>The two loops\<close>

lemma GetEnclosingRectangle_inner_inv:
  assumes "rect_inv W H (bits bm) P st"
    and "0 \<le> y" "nat y < length (bits bm)"
    and "length (bits bm ! nat y) = unat (rowSize bm)" "0 \<le> x32"
  shows "\<exists>st'. GetEnclosingRectangle_inner bm y st x32 = Some (Inr st')
           \<and> rect_inv W H (bits bm)
                (\<lambda>x' y'. P x' y' \<or> (y' = y \<and> x32 \<le> x' div 32)) st'"
  using assms
proof (induction bm y st x32 arbitrary: P rule: GetEnclosingRectangle_inner.induct)
  case (1 bm y st x32)
  show ?case
  proof (cases "x32 < uint (rowSize bm)")
    case False
    have "rect_inv W H (bits bm) (\<lambda>x' y'. P x' y' \<or> (y' = y \<and> x32 \<le> x' div 32)) st"
      using "1.prems"(1)
    proof (rule rect_inv_mono_zero)
      fix x' y' assume "on_bit (bits bm) x' y'" "y' = y \<and> x32 \<le> x' div 32"
      then have "nat (x' div 32) < unat (rowSize bm)" "x32 \<le> x' div 32"
        using "1.prems"(4) by (simp_all add: on_bit_def)
      then have "nat x32 < unat (rowSize bm)" using "1.prems"(5)
        by linarith
      then have "x32 < uint (rowSize bm)" using "1.prems"(5)
        by (simp add: less_uint_nat)
      with False show False by simp
    qed
    then show ?thesis using False
      by (subst GetEnclosingRectangle_inner.simps) simp
  next
    case True
    then have xl: "nat x32 < length (bits bm ! nat y)"
      using "1.prems"(4,5) by (simp add: less_uint_nat)
    let ?w = "bits bm ! nat y ! nat x32"
    have "y < int (length (bits bm))" "x32 < int (length (bits bm ! nat y))"
      using "1.prems"(2,3,5) xl by linarith+
    then have idx: "bind_err (index_int (bits bm) y) (\<lambda>row. index_int row x32) = Inr ?w"
      using "1.prems"(2,5) by (simp add: index_int_def bind_err_def)
    from scan_word_step [OF "1.prems"(1,2,3,5) xl] obtain st1 where
      sw: "scan_word st y x32 ?w = Some st1" and
      inv1: "rect_inv W H (bits bm) (\<lambda>x' y'. P x' y' \<or> (y' = y \<and> x' div 32 = x32)) st1"
      by blast
    have "0 \<le> x32 + 1" using "1.prems"(5) by simp
    from "1.IH" [OF True idx sw inv1 "1.prems"(2,3,4) this] obtain st' where
      r: "GetEnclosingRectangle_inner bm y st1 (x32 + 1) = Some (Inr st')" and
      inv': "rect_inv W H (bits bm)
          (\<lambda>x' y'. (P x' y' \<or> (y' = y \<and> x' div 32 = x32)) \<or> (y' = y \<and> x32 + 1 \<le> x' div 32)) st'"
      by blast
    have "(\<lambda>x' y'. (P x' y' \<or> (y' = y \<and> x' div 32 = x32)) \<or> (y' = y \<and> x32 + 1 \<le> x' div 32))
        = (\<lambda>x' y'. P x' y' \<or> (y' = y \<and> x32 \<le> x' div 32))"
      by (intro ext) auto
    with inv' have "rect_inv W H (bits bm) (\<lambda>x' y'. P x' y' \<or> (y' = y \<and> x32 \<le> x' div 32)) st'"
      by simp
    then show ?thesis using True idx sw r
      by (subst GetEnclosingRectangle_inner.simps) simp
  qed
qed

lemma GetEnclosingRectangle_outer_inv:
  assumes "rect_inv W H (bits bm) P st" and "0 \<le> y"
    and "length (bits bm) = unat (height bm)"
    and "list_all (\<lambda>row. length row = unat (rowSize bm)) (bits bm)"
  shows "\<exists>st'. GetEnclosingRectangle_outer bm st y = Some (Inr st')
           \<and> rect_inv W H (bits bm) (\<lambda>x' y'. P x' y' \<or> y \<le> y') st'"
  using assms
proof (induction bm st y arbitrary: P rule: GetEnclosingRectangle_outer.induct)
  case (1 bm st y)
  show ?case
  proof (cases "y < uint (height bm)")
    case False
    have "rect_inv W H (bits bm) (\<lambda>x' y'. P x' y' \<or> y \<le> y') st"
      using "1.prems"(1)
    proof (rule rect_inv_mono_zero)
      fix x' y' assume "on_bit (bits bm) x' y'" "y \<le> y'"
      then have "nat y' < unat (height bm)" "0 \<le> y'" "y \<le> y'"
        using "1.prems"(3) by (simp_all add: on_bit_def)
      then have "y' < uint (height bm)" by (simp add: less_uint_nat)
      with \<open>y \<le> y'\<close> False show False by simp
    qed
    then show ?thesis using False
      by (subst GetEnclosingRectangle_outer.simps) simp
  next
    case True
    then have yl: "nat y < length (bits bm)"
      using "1.prems"(2,3) by (simp add: less_uint_nat)
    then have rl: "length (bits bm ! nat y) = unat (rowSize bm)"
      using "1.prems"(4) by (simp add: list_all_length)
    from GetEnclosingRectangle_inner_inv [OF "1.prems"(1,2) yl rl, of 0] obtain st1 where
      inn: "GetEnclosingRectangle_inner bm y st 0 = Some (Inr st1)" and
      inv1: "rect_inv W H (bits bm) (\<lambda>x' y'. P x' y' \<or> (y' = y \<and> 0 \<le> x' div 32)) st1"
      by auto
    have inv1': "rect_inv W H (bits bm) (\<lambda>x' y'. P x' y' \<or> y' = y) st1"
    proof -
      have "(P x' y' \<or> (y' = y \<and> 0 \<le> x' div 32)) = (P x' y' \<or> y' = y)"
        if "on_bit (bits bm) x' y'" for x' y'
      proof -
        from that have "0 \<le> x'" by (simp add: on_bit_def)
        then have "0 \<le> x' div 32" by simp
        then show ?thesis by simp
      qed
      then have "rect_inv W H (bits bm) (\<lambda>x' y'. P x' y' \<or> (y' = y \<and> 0 \<le> x' div 32)) st1
          = rect_inv W H (bits bm) (\<lambda>x' y'. P x' y' \<or> y' = y) st1"
        by (rule rect_inv_cong)
      with inv1 show ?thesis by simp
    qed
    have "0 \<le> y + 1" using "1.prems"(2) by simp
    from "1.IH" [OF True inn refl inv1' this "1.prems"(3,4)] obtain st' where
      r: "GetEnclosingRectangle_outer bm st1 (y + 1) = Some (Inr st')" and
      inv': "rect_inv W H (bits bm) (\<lambda>x' y'. (P x' y' \<or> y' = y) \<or> y + 1 \<le> y') st'"
      by blast
    have "(\<lambda>x' y'. (P x' y' \<or> y' = y) \<or> y + 1 \<le> y') = (\<lambda>x' y'. P x' y' \<or> y \<le> y')"
      by (intro ext) auto
    with inv' have "rect_inv W H (bits bm) (\<lambda>x' y'. P x' y' \<or> y \<le> y') st'"
      by simp
    then show ?thesis using True inn r
      by (subst GetEnclosingRectangle_outer.simps) simp
  qed
qed

lemma GetEnclosingRectangle_outer_all:
  assumes "wf_BitMatrix bm"
  shows "\<exists>st'. GetEnclosingRectangle_outer bm (uint (width bm), uint (height bm), - 1, - 1) 0
             = Some (Inr st')
           \<and> rect_inv (uint (width bm)) (uint (height bm)) (bits bm) (\<lambda>x y. True) st'"
proof -
  have init: "rect_inv (uint (width bm)) (uint (height bm)) (bits bm) (\<lambda>x y. False)
      (uint (width bm), uint (height bm), - 1, - 1)"
    by (simp add: rect_inv_def)
  from assms have sh: "length (bits bm) = unat (height bm)"
    "list_all (\<lambda>row. length row = unat (rowSize bm)) (bits bm)"
    unfolding wf_BitMatrix_def by blast+
  from GetEnclosingRectangle_outer_inv [OF init _ sh, of 0] obtain st' where
    r: "GetEnclosingRectangle_outer bm (uint (width bm), uint (height bm), - 1, - 1) 0
          = Some (Inr st')" and
    inv: "rect_inv (uint (width bm)) (uint (height bm)) (bits bm) (\<lambda>x' y'. False \<or> 0 \<le> y') st'"
    by auto
  have "rect_inv (uint (width bm)) (uint (height bm)) (bits bm) (\<lambda>x' y'. False \<or> 0 \<le> y') st'
      = rect_inv (uint (width bm)) (uint (height bm)) (bits bm) (\<lambda>x y. True) st'"
    by (rule rect_inv_cong) (simp add: on_bit_def)
  with r inv show ?thesis by simp
qed

subsection \<open>Bits of the invariant and bits read by Get\<close>

lemma nat_uint_div: "nat (uint (x :: u32) div 32) = unat x div 32"
proof -
  have "nat (uint x div 32) = nat (uint x) div nat 32"
    by (rule nat_div_distrib) simp
  then show ?thesis unfolding unat_eq_nat_uint by simp
qed

lemma nat_uint_mod: "nat (uint (x :: u32) mod 32) = unat x mod 32"
proof -
  have "nat (uint x mod 32) = nat (uint x) mod nat 32"
    by (rule nat_mod_distrib) simp_all
  then show ?thesis unfolding unat_eq_nat_uint by simp
qed

lemma unat_and31: "unat ((x :: u32) AND 0x1F) = unat x mod 32"
  by (simp add: and31_mod unat_mod_distrib)

lemma Get_on_bit:
  assumes wf: "wf_BitMatrix bm" and x: "x < width bm" and y: "y < height bm"
  shows "Get bm x y = Inr (on_bit (bits bm) (uint x) (uint y))"
proof -
  from wf have len: "length (bits bm) = unat (height bm)"
    and rows: "list_all (\<lambda>row. length row = unat (rowSize bm)) (bits bm)"
    and rs: "unat (rowSize bm) = (unat (width bm) + 31) div 32"
    unfolding wf_BitMatrix_def by blast+
  have yl: "unat y < length (bits bm)" using y len by (simp add: word_less_nat_alt)
  then have rl: "length (bits bm ! unat y) = unat (rowSize bm)"
    using rows by (simp add: list_all_length)
  have "unat x < unat (width bm)" using x by (simp add: word_less_nat_alt)
  then have xl: "unat x div 32 < length (bits bm ! unat y)"
    unfolding rl rs by linarith
  have wa: "word_at (bits bm) y (x div 32) = Inr (bits bm ! unat y ! (unat x div 32))"
    using yl xl by (simp add: word_at_Inr unat_div32)
  have ny: "nat (uint y) = unat y" by (simp only: unat_eq_nat_uint)
  show ?thesis
    using yl xl
    by (simp add: Get_get_bits get_bits_def wa bind_err_def on_bit_def
                  nat_uint_div nat_uint_mod unat_and31 ny)
qed

lemma on_bit_bounds:
  assumes wf: "wf_BitMatrix bm" and pc: "padding_clear bm" and on: "on_bit (bits bm) x y"
  shows "0 \<le> x \<and> x < uint (width bm) \<and> 0 \<le> y \<and> y < uint (height bm)"
proof -
  from wf have len: "length (bits bm) = unat (height bm)"
    unfolding wf_BitMatrix_def by blast
  from on have x0: "0 \<le> x" and y0: "0 \<le> y" and yl: "nat y < length (bits bm)"
    and kl: "nat (x div 32) < length (bits bm ! nat y)"
    and bt: "bit (bits bm ! nat y ! nat (x div 32)) (nat (x mod 32))"
    by (simp_all add: on_bit_def)
  let ?k = "nat (x div 32)" and ?b = "nat (x mod 32)"
  let ?w = "bits bm ! nat y ! ?k"
  have yH: "y < uint (height bm)" using yl len y0 by (simp add: less_uint_nat)
  from pc yl kl have z: "drop_bit (unat (width bm) - 32 * ?k) ?w = 0"
    by (simp add: padding_clear_def list_all_length)
  have xe: "nat x = 32 * ?k + ?b"
  proof -
    have "nat x = nat x div 32 * 32 + nat x mod 32" by simp
    moreover have "nat (x div 32) = nat x div nat 32" using x0 by (intro nat_div_distrib)
    moreover have "nat (x mod 32) = nat x mod nat 32" using x0 by (intro nat_mod_distrib) simp_all
    ultimately show ?thesis by simp
  qed
  have "nat x < unat (width bm)"
  proof (rule ccontr)
    assume "\<not> nat x < unat (width bm)"
    then have ge: "unat (width bm) - 32 * ?k \<le> ?b" using xe by linarith
    have "bit (drop_bit (unat (width bm) - 32 * ?k) ?w) (?b - (unat (width bm) - 32 * ?k))"
      using bt ge by (simp add: bit_drop_bit_eq)
    with z show False by simp
  qed
  then have "x < uint (width bm)" using x0 by (simp add: less_uint_nat)
  with x0 y0 yH show ?thesis by simp
qed

lemma on_bit_Get:
  assumes wf: "wf_BitMatrix bm" and pc: "padding_clear bm" and on: "on_bit (bits bm) x y"
  shows "\<exists>xw yw. xw < width bm \<and> yw < height bm \<and> uint xw = x \<and> uint yw = y
           \<and> Get bm xw yw = Inr True"
proof -
  from on_bit_bounds [OF wf pc on] have
    b: "0 \<le> x" "x < uint (width bm)" "0 \<le> y" "y < uint (height bm)" by simp_all
  define xw :: u32 where "xw = word_of_int x"
  define yw :: u32 where "yw = word_of_int y"
  have "x < 2 ^ 32" using b(2) uint_lt2p [of "width bm"] by simp
  then have ux: "uint xw = x" using b(1) by (simp add: xw_def uint_word_of_int)
  have "y < 2 ^ 32" using b(4) uint_lt2p [of "height bm"] by simp
  then have uy: "uint yw = y" using b(3) by (simp add: yw_def uint_word_of_int)
  have lx: "xw < width bm" using b(2) ux by (simp add: word_less_def)
  have ly: "yw < height bm" using b(4) uy by (simp add: word_less_def)
  have "Get bm xw yw = Inr True"
    using Get_on_bit [OF wf lx ly] on by (simp add: ux uy)
  with lx ly ux uy show ?thesis by blast
qed

lemma span_unat:
  assumes "(a :: u32) \<le> b" "b < c"
  shows "unat (b - a + 1) = unat b - unat a + 1" 
    and "unat a + unat (b - a + 1) = unat b + 1"
    and "a + (b - a + 1) - 1 = b"
    and "0 < b - a + 1"
  using assms by unat_arith+

text \<open>
  C9, as stated (for every \<^verbatim>\<open>BitMatrix\<close>), fails: the scan reads whole words, also the bits
  of the last word of a row that lie beyond the width, and \<^verbatim>\<open>SetRow\<close> copies whole words
  into a row. After \<^verbatim>\<open>SetRow\<close> of a 32-bit sequence with bit 31 set into a 5 by 1 grid every
  bit of the grid is clear, and the result is the rectangle {5, 0, 27, 1}, not \<^verbatim>\<open>nil\<close>. On
  the 33 by 1 grid with only (31,0) set, \<^verbatim>\<open>Rotate180\<close> leaves the words 2 and 2 in the
  row, and the result is {1, 0, 33, 1}, which ends beyond the grid.
\<close>

theorem GetEnclosingRectangle_padding_counterexample:
  "NewBitMatrix 5 1 = Inr \<lparr>width = 5, height = 1, rowSize = 1, bits = [[0]]\<rparr>
   \<and> ASet (NewBitArray 32) 31 = Inr \<lparr>abits = [0x80000000], asize = 32\<rparr>
   \<and> SetRow \<lparr>width = 5, height = 1, rowSize = 1, bits = [[0]]\<rparr> 0
         \<lparr>abits = [0x80000000], asize = 32\<rparr>
     = Inr \<lparr>width = 5, height = 1, rowSize = 1, bits = [[0x80000000]]\<rparr>
   \<and> Get \<lparr>width = 5, height = 1, rowSize = 1, bits = [[0x80000000]]\<rparr> 0 0 = Inr False
   \<and> Get \<lparr>width = 5, height = 1, rowSize = 1, bits = [[0x80000000]]\<rparr> 1 0 = Inr False
   \<and> Get \<lparr>width = 5, height = 1, rowSize = 1, bits = [[0x80000000]]\<rparr> 2 0 = Inr False
   \<and> Get \<lparr>width = 5, height = 1, rowSize = 1, bits = [[0x80000000]]\<rparr> 3 0 = Inr False
   \<and> Get \<lparr>width = 5, height = 1, rowSize = 1, bits = [[0x80000000]]\<rparr> 4 0 = Inr False
   \<and> GetEnclosingRectangle \<lparr>width = 5, height = 1, rowSize = 1, bits = [[0x80000000]]\<rparr>
     = Some (Inr (Some [5, 0, 27, 1]))
   \<and> bind_err (NewBitMatrix 33 1) (\<lambda>m. Set m 31 0)
     = Inr \<lparr>width = 33, height = 1, rowSize = 2, bits = [[0x80000000, 0]]\<rparr>
   \<and> Rotate180 \<lparr>width = 33, height = 1, rowSize = 2, bits = [[0x80000000, 0]]\<rparr>
     = Inr \<lparr>width = 33, height = 1, rowSize = 2, bits = [[2, 2]]\<rparr>
   \<and> GetEnclosingRectangle \<lparr>width = 33, height = 1, rowSize = 2, bits = [[2, 2]]\<rparr>
     = Some (Inr (Some [1, 0, 33, 1]))"
  by code_simp

text \<open>
  C9, amended: on a grid that satisfies the shape invariant and has no bit set beyond its
  width in the words of its rows,
  \<^verbatim>\<open>GetEnclosingRectangle\<close> returns \<^verbatim>\<open>nil\<close> exactly when no bit of the grid is set; otherwise
  it returns \<open>{left, top, width, height}\<close> with width and height at least 1, inside the grid,
  containing every set bit, and minimal: a set bit lies on its first and on its last
  column, and on its first and on its last row.
\<close>

theorem GetEnclosingRectangle_is_minimal_bounding_box:
  assumes wf: "wf_BitMatrix bm" and pc: "padding_clear bm"
  shows "if (\<forall>x y. x < width bm \<and> y < height bm \<longrightarrow> Get bm x y = Inr False)
         then GetEnclosingRectangle bm = Some (Inr None)
         else (\<exists>l t w h.
                 GetEnclosingRectangle bm = Some (Inr (Some [l, t, w, h]))
                 \<and> 0 < w \<and> 0 < h
                 \<and> unat l + unat w \<le> unat (width bm) \<and> unat t + unat h \<le> unat (height bm)
                 \<and> (\<forall>x y. x < width bm \<and> y < height bm \<and> Get bm x y = Inr True \<longrightarrow>
                        unat l \<le> unat x \<and> unat x < unat l + unat w
                        \<and> unat t \<le> unat y \<and> unat y < unat t + unat h)
                 \<and> (\<exists>y. y < height bm \<and> Get bm l y = Inr True)
                 \<and> (\<exists>y. y < height bm \<and> Get bm (l + w - 1) y = Inr True)
                 \<and> (\<exists>x. x < width bm \<and> Get bm x t = Inr True)
                 \<and> (\<exists>x. x < width bm \<and> Get bm x (t + h - 1) = Inr True))"
proof -
  let ?W = "uint (width bm)" and ?H = "uint (height bm)" and ?bs = "bits bm"
  from GetEnclosingRectangle_outer_all [OF wf] obtain st' where
    run0: "GetEnclosingRectangle_outer bm (?W, ?H, - 1, - 1) 0 = Some (Inr st')" and
    inv0: "rect_inv ?W ?H ?bs (\<lambda>x y. True) st'"
    by blast
  obtain left top0 right bottom where st': "st' = (left, top0, right, bottom)"
    by (cases st') auto
  note run = run0 [unfolded st']
  from inv0 have
    A: "\<And>x y. on_bit ?bs x y \<Longrightarrow> left \<le> x \<and> x \<le> right \<and> top0 \<le> y \<and> y \<le> bottom" and
    L: "left = ?W \<or> (\<exists>y. on_bit ?bs left y)" and
    R: "right = - 1 \<or> (\<exists>y. on_bit ?bs right y)" and
    T: "top0 = ?H \<or> (\<exists>x. on_bit ?bs x top0)" and
    B: "bottom = - 1 \<or> (\<exists>x. on_bit ?bs x bottom)"
    unfolding rect_inv_def st' by auto
  show ?thesis
  proof (cases "\<exists>x y. on_bit ?bs x y")
    case False
    with L R have "left = ?W" "right = - 1" by auto
    moreover have "0 \<le> ?W" by simp
    ultimately have "right < left" by linarith
    then have res: "GetEnclosingRectangle bm = Some (Inr None)"
      by (simp add: GetEnclosingRectangle_def run)
    have "Get bm x y = Inr False" if "x < width bm" "y < height bm" for x y
      using Get_on_bit [OF wf that] False by simp
    then have "\<forall>x y. x < width bm \<and> y < height bm \<longrightarrow> Get bm x y = Inr False"
      by blast
    then show ?thesis by (simp only: if_P res)
  next
    case True
    then obtain x0 y0 where on0: "on_bit ?bs x0 y0" by blast
    from on_bit_Get [OF wf pc on0] obtain xw0 yw0 where
      g0: "xw0 < width bm" "yw0 < height bm" "Get bm xw0 yw0 = Inr True"
      by blast
    have cond: "\<not> (\<forall>x y. x < width bm \<and> y < height bm \<longrightarrow> Get bm x y = Inr False)"
    proof
      assume "\<forall>x y. x < width bm \<and> y < height bm \<longrightarrow> Get bm x y = Inr False"
      with g0(1,2) have "Get bm xw0 yw0 = Inr False" by blast
      with g0(3) show False by simp
    qed
    from on_bit_bounds [OF wf pc on0] have
      b0: "0 \<le> x0" "x0 < ?W" "0 \<le> y0" "y0 < ?H" by simp_all
    from A [OF on0] have a0: "left \<le> x0" "x0 \<le> right" "top0 \<le> y0" "y0 \<le> bottom"
      by simp_all
    from L a0 b0 obtain yl where onl: "on_bit ?bs left yl" by auto
    from R a0 b0 obtain yr where onr: "on_bit ?bs right yr" by auto
    from T a0 b0 obtain xt where ont: "on_bit ?bs xt top0" by auto
    from B a0 b0 obtain xb where onb: "on_bit ?bs xb bottom" by auto
    from on_bit_Get [OF wf pc onl] obtain l ly where
      l: "l < width bm" "ly < height bm" "uint l = left" "Get bm l ly = Inr True" by blast
    from on_bit_Get [OF wf pc onr] obtain r ry where
      r: "r < width bm" "ry < height bm" "uint r = right" "Get bm r ry = Inr True" by blast
    from on_bit_Get [OF wf pc ont] obtain tx t where
      t: "tx < width bm" "t < height bm" "uint t = top0" "Get bm tx t = Inr True" by blast
    from on_bit_Get [OF wf pc onb] obtain bx b where
      b: "bx < width bm" "b < height bm" "uint b = bottom" "Get bm bx b = Inr True" by blast
    have lr: "l \<le> r" using a0 l(3) r(3) by (simp add: word_le_def)
    have tb: "t \<le> b" using a0 t(3) b(3) by (simp add: word_le_def)
    have wl: "word_of_int left = l" "word_of_int top0 = t"
      "word_of_int right = r" "word_of_int bottom = b"
      using l(3) r(3) t(3) b(3) by (auto simp: word_of_int_uint [symmetric] simp del: word_of_int_uint)
    have nn: "\<not> (right < left \<or> bottom < top0)" using a0 by simp
    have res: "GetEnclosingRectangle bm = Some (Inr (Some [l, t, r - l + 1, b - t + 1]))"
      using nn by (simp add: GetEnclosingRectangle_def run wl)
    have contain: "unat l \<le> unat x \<and> unat x < unat l + unat (r - l + 1)
        \<and> unat t \<le> unat y \<and> unat y < unat t + unat (b - t + 1)"
      if h: "x < width bm \<and> y < height bm \<and> Get bm x y = Inr True" for x y
    proof -
      from h Get_on_bit [OF wf, of x y] have "on_bit ?bs (uint x) (uint y)" by simp
      from A [OF this] have "l \<le> x" "x \<le> r" "t \<le> y" "y \<le> b"
        using l(3) r(3) t(3) b(3) by (simp_all add: word_le_def)
      then show ?thesis
        using span_unat(2) [OF lr r(1)] span_unat(2) [OF tb b(2)]
        by (simp add: word_le_nat_alt)
    qed
    have "0 < r - l + 1" "0 < b - t + 1"
      using span_unat(4) [OF lr r(1)] span_unat(4) [OF tb b(2)] by simp_all
    moreover have "unat l + unat (r - l + 1) \<le> unat (width bm)"
      using span_unat(2) [OF lr r(1)] r(1) by (simp add: word_less_nat_alt)
    moreover have "unat t + unat (b - t + 1) \<le> unat (height bm)"
      using span_unat(2) [OF tb b(2)] b(2) by (simp add: word_less_nat_alt)
    moreover have "\<exists>y. y < height bm \<and> Get bm l y = Inr True" using l by blast
    moreover have "\<exists>y. y < height bm \<and> Get bm (l + (r - l + 1) - 1) y = Inr True"
      using r span_unat(3) [OF lr r(1)] by auto
    moreover have "\<exists>x. x < width bm \<and> Get bm x t = Inr True" using t by blast
    moreover have "\<exists>x. x < width bm \<and> Get bm x (t + (b - t + 1) - 1) = Inr True"
      using b span_unat(3) [OF tb b(2)] by auto
    ultimately have "\<exists>l t w h.
                 GetEnclosingRectangle bm = Some (Inr (Some [l, t, w, h]))
                 \<and> 0 < w \<and> 0 < h
                 \<and> unat l + unat w \<le> unat (width bm) \<and> unat t + unat h \<le> unat (height bm)
                 \<and> (\<forall>x y. x < width bm \<and> y < height bm \<and> Get bm x y = Inr True \<longrightarrow>
                        unat l \<le> unat x \<and> unat x < unat l + unat w
                        \<and> unat t \<le> unat y \<and> unat y < unat t + unat h)
                 \<and> (\<exists>y. y < height bm \<and> Get bm l y = Inr True)
                 \<and> (\<exists>y. y < height bm \<and> Get bm (l + w - 1) y = Inr True)
                 \<and> (\<exists>x. x < width bm \<and> Get bm x t = Inr True)
                 \<and> (\<exists>x. x < width bm \<and> Get bm x (t + h - 1) = Inr True)"
      using res contain by blast
    then show ?thesis by (simp only: if_not_P [OF cond])
  qed
qed

theorem GetEnclosingRectangle_is_minimal_bounding_box_witness:
  "wf_BitMatrix \<lparr>width = 5, height = 5, rowSize = 1, bits = [[0], [14], [14], [0], [0]]\<rparr>
   \<and> padding_clear \<lparr>width = 5, height = 5, rowSize = 1, bits = [[0], [14], [14], [0], [0]]\<rparr>
   \<and> GetEnclosingRectangle
         \<lparr>width = 5, height = 5, rowSize = 1, bits = [[0], [14], [14], [0], [0]]\<rparr>
       = Some (Inr (Some [1, 1, 3, 2]))
   \<and> (\<exists>y. Get \<lparr>width = 5, height = 5, rowSize = 1, bits = [[0], [14], [14], [0], [0]]\<rparr>
              (1 + 3 - 1) y = Inr True)"
proof -
  let ?m = "\<lparr>width = 5, height = 5, rowSize = 1, bits = [[0], [14], [14], [0], [0 :: u32]]\<rparr>"
  have wf: "wf_BitMatrix ?m"
    by (simp add: wf_BitMatrix_def)
  have pc: "padding_clear ?m"
    by code_simp
  have g: "Get ?m 1 1 = Inr True"
    by code_simp
  have res: "GetEnclosingRectangle ?m = Some (Inr (Some [1, 1, 3, 2]))"
    by code_simp
  have ncond: "\<not> (\<forall>x y. x < width ?m \<and> y < height ?m \<longrightarrow> Get ?m x y = Inr False)"
  proof
    assume "\<forall>x y. x < width ?m \<and> y < height ?m \<longrightarrow> Get ?m x y = Inr False"
    then have "(1 :: u32) < width ?m \<and> (1 :: u32) < height ?m \<longrightarrow> Get ?m 1 1 = Inr False"
      by blast
    with g show False by simp
  qed
  from GetEnclosingRectangle_is_minimal_bounding_box [OF wf pc]
  obtain l t w h where
    "GetEnclosingRectangle ?m = Some (Inr (Some [l, t, w, h]))"
    "\<exists>y. y < height ?m \<and> Get ?m (l + w - 1) y = Inr True"
    unfolding if_not_P [OF ncond] by blast
  with res have "\<exists>y. Get ?m (1 + 3 - 1) y = Inr True"
    by auto
  with wf pc res show ?thesis by simp
qed

section \<open>Claims about the text format\<close>

subsection \<open>The text of a grid\<close>





subsection \<open>The runes of ASCII text\<close>









subsection \<open>The parsing loop on the text of a grid\<close>











subsection \<open>The fill loop\<close>








subsection \<open>Grids with the same bits are equal\<close>












text \<open>
  Distinct tokens that are not ASCII can have the same runes: the bytes \<open>0x80\<close> and \<open>0x81\<close>
  are both ill-formed UTF-8 and both convert to the rune \<open>0xFFFD\<close>, so the unset token is
  read as the set token and the clear 1 by 1 grid comes back with its bit set.
\<close>

lemma ToString_Parse_non_ascii_tokens:
  "stringtoslicerune [CHR 0x80] = [0xFFFD]
   \<and> stringtoslicerune [CHR 0x81] = [0xFFFD]
   \<and> ToString \<lparr>width = 1, height = 1, rowSize = 1, bits = [[0]]\<rparr> [CHR 0x80] [CHR 0x81]
       = Inr [CHR 0x81, CHR 0x0A]
   \<and> ParseStringToBitMatrix 2 [CHR 0x81, CHR 0x0A] [CHR 0x80] [CHR 0x81]
       = Inr \<lparr>width = 1, height = 1, rowSize = 1, bits = [[1]]\<rparr>"
  by code_simp



end
